theory Spec2Isabelle
  imports Complex_Main
begin

section \<open>Streaming Tuning notebook: a shallow embedding of the utility functions\<close>

text \<open>
  The notebook \<^verbatim>\<open>Streaming Tuning.ipynb\<close> defines a handful of Python procedures that read
  telemetry from a streaming engine and print advice. None of them returns a value that a
  caller uses; what they do is print, call the engine, sleep and plot. Each procedure is
  therefore modelled as a function to an \<^emph>\<open>outcome\<close>: the list of effects it performed, in
  order, and the exception it raised, if any.

  The calls into the engine (reading a property of a query or of a data reference, writing
  a batch, stopping a query) are taken to return; what the notebook's own code raises
  (a missing key, a value that is not a number, an overflow, a rejected sleep length) is a
  branch of the model. The background thread of \<^verbatim>\<open>start_background_commits\<close>, the stream
  set up by \<^verbatim>\<open>attach_read_stream\<close> and the listener \<^verbatim>\<open>QueryLogger\<close> are not modelled.
\<close>

subsection \<open>Python values\<close>

text \<open>
  A Python float is a finite double (given by its exact rational value), an infinity or a
  NaN. The two zeros are not told apart: no comparison of the notebook can see the sign of
  a zero.
\<close>

datatype pyfloat = Fin rat | PInf | NInf | NaN

text \<open>A number a caller can pass where the notebook expects one: an int or a float.\<close>

datatype pynum = NInt int | NFloat pyfloat

text \<open>
  The values \<^verbatim>\<open>json.loads\<close> produces; a progress snapshot is one of them. A dict is kept
  as an association list, looked up from the front.
\<close>

datatype pyval =
    VNone
  | VBool bool
  | VInt int
  | VFloat pyfloat
  | VStr string
  | VList "pyval list"
  | VDict "(string \<times> pyval) list"

text \<open>The exceptions the modelled operations raise; all are subclasses of \<^verbatim>\<open>Exception\<close>.\<close>

datatype py_exn = KeyError string | TypeError | ValueError | OverflowError | ZeroDivisionError

subsection \<open>Effects\<close>

text \<open>
  A printed line is kept as the list of its fragments, so that a formatted number stays a
  number: \<open>S\<close> is literal text, \<open>PI\<close> an int formatted by \<^verbatim>\<open>str\<close>, \<open>PN\<close> a number
  formatted by \<^verbatim>\<open>str\<close>, \<open>F2\<close> a float formatted with \<^verbatim>\<open>:.2f\<close>, \<open>PV\<close> a value formatted
  by \<^verbatim>\<open>str\<close>, \<open>PE\<close> the text \<^verbatim>\<open>str(e)\<close> of an exception and \<open>PJ\<close> the text
  \<^verbatim>\<open>json.dumps(v, indent=2)\<close>.
\<close>

datatype frag =
    S string
  | PI int
  | PN pynum
  | F2 pyfloat
  | PV pyval
  | PE py_exn
  | PJ pyval

text \<open>The calls of \<^verbatim>\<open>matplotlib.pyplot\<close> made by the plotter.\<close>

datatype plt_call =
    Figure
  | Plot "pyval list" "pyfloat list"
  | Xticks
  | Ylabel string
  | Title string
  | Grid
  | TightLayout
  | Show

text \<open>
  One effect: a \<^verbatim>\<open>print\<close>, a read of the partition count of a data reference, a read of the
  default parallelism of the session, a \<^verbatim>\<open>stop()\<close> of the query with the given id, a
  write of rows (id, timestamp) to a path in the given format and mode, a \<^verbatim>\<open>time.sleep\<close>
  of the given number of seconds, or a plotting call.
\<close>

datatype event =
    Print "frag list"
  | GetNumPartitions
  | GetDefaultParallelism
  | Stop string
  | Save string string string "(int \<times> nat) list"
  | Sleep rat
  | Plt plt_call

type_synonym outcome = "event list \<times> py_exn option"

subsection \<open>The engine's objects\<close>

text \<open>
  A query handle: its id, its name (a string or \<^verbatim>\<open>None\<close>), its status dict, its last
  progress snapshot (\<^verbatim>\<open>None\<close> before the first batch) and its recent progress history
  (\<open>None\<close> stands for an absent history).
\<close>

record query =
  qid :: string
  qname :: pyval
  status :: "(string \<times> pyval) list"
  lastProgress :: pyval
  recentProgress :: "pyval list option"

text \<open>A data reference: whether it is streaming, and the partition count of its RDD.\<close>

record dataframe =
  isStreaming :: bool
  numPartitions :: int

text \<open>
  The global \<^verbatim>\<open>spark\<close> session, passed explicitly: the default parallelism of its context,
  the active queries of its stream manager, and the clock that \<^verbatim>\<open>current_timestamp()\<close>
  reads: \<open>clock k\<close> is the timestamp of the \<open>k\<close>-th job the session runs.
\<close>

record spark_session =
  defaultParallelism :: int
  active :: "query list"
  clock :: "nat \<Rightarrow> nat"

subsection \<open>Floating-point arithmetic\<close>

text \<open>
  Python's \<^verbatim>\<open>int.bit_length\<close>: the number of binary digits of a natural number.
\<close>

fun bit_length :: "nat \<Rightarrow> nat" where
  "bit_length n = (if n = 0 then 0 else Suc (bit_length (n div 2)))"

declare bit_length.simps [simp del]

definition pow2 :: "int \<Rightarrow> rat" where
  "pow2 e = (if 0 \<le> e then 2 ^ nat e else 1 / 2 ^ nat (- e))"

text \<open>For \<open>x > 0\<close>, the exponent \<open>e\<close> with \<open>2 ^ e \<le> x < 2 ^ (e + 1)\<close>.\<close>

definition floor_log2 :: "rat \<Rightarrow> int" where
  "floor_log2 x =
     (let d = int (bit_length (nat (fst (quotient_of x))))
            - int (bit_length (nat (snd (quotient_of x))))
      in if pow2 d \<le> x then d else d - 1)"

text \<open>Rounding to the nearest integer, a tie going to the even one.\<close>

definition round_half_even :: "rat \<Rightarrow> int" where
  "round_half_even x =
     (let f = \<lfloor>x\<rfloor>; d = x - of_int f
      in if d < 1 / 2 then f
         else if 1 / 2 < d then f + 1
         else if even f then f else f + 1)"

text \<open>
  The spacing of the doubles around \<open>x \<noteq> 0\<close>: 52 binary digits below the leading one, and
  never finer than the spacing of the subnormal numbers, \<open>2 ^ - 1074\<close>.
\<close>

definition ulp :: "rat \<Rightarrow> rat" where
  "ulp x = pow2 (max (floor_log2 \<bar>x\<bar>) (- 1022) - 52)"

text \<open>
  IEEE 754 binary64 rounding of an exact result, to nearest with ties to even; a result
  that rounds to \<open>2 ^ 1024\<close> or beyond overflows to an infinity.
\<close>

definition round_double :: "rat \<Rightarrow> pyfloat" where
  "round_double x =
     (if x = 0 then Fin 0
      else
        let r = of_int (round_half_even (x / ulp x)) * ulp x
        in if pow2 1024 \<le> r then PInf
           else if r \<le> - pow2 1024 then NInf
           else Fin r)"

text \<open>
  \<^verbatim>\<open>a / b\<close> on two ints: the correctly rounded quotient; a zero divisor and a quotient too
  large for a float raise.
\<close>

definition int_truediv :: "int \<Rightarrow> int \<Rightarrow> py_exn + pyfloat" where
  "int_truediv a b =
     (if b = 0 then Inl ZeroDivisionError
      else case round_double (of_int a / of_int b) of
             Fin r \<Rightarrow> Inr (Fin r)
           | _ \<Rightarrow> Inl OverflowError)"

text \<open>\<^verbatim>\<open>float(i)\<close> on an int: correctly rounded; an int too large for a float raises.\<close>

definition float_of_int :: "int \<Rightarrow> py_exn + pyfloat" where
  "float_of_int i =
     (case round_double (of_int i) of
        Fin r \<Rightarrow> Inr (Fin r)
      | _ \<Rightarrow> Inl OverflowError)"

text \<open>The sign of a float that is not a NaN, as \<open>-1\<close>, \<open>0\<close> or \<open>1\<close>.\<close>

fun float_sgn :: "pyfloat \<Rightarrow> rat" where
  "float_sgn (Fin a) = sgn a"
| "float_sgn PInf = 1"
| "float_sgn NInf = - 1"
| "float_sgn NaN = 0"

text \<open>
  \<^verbatim>\<open>x * y\<close> on two floats: a NaN gives a NaN, an infinity times zero is a NaN, an infinity
  times anything else is an infinity of the product's sign, and two finite floats give the
  rounded product. It never raises.
\<close>

fun float_mul :: "pyfloat \<Rightarrow> pyfloat \<Rightarrow> pyfloat" where
  "float_mul NaN y = NaN"
| "float_mul x NaN = NaN"
| "float_mul (Fin a) (Fin b) = round_double (a * b)"
| "float_mul x y =
     (if float_sgn x * float_sgn y = 0 then NaN
      else if 0 < float_sgn x * float_sgn y then PInf else NInf)"

text \<open>\<^verbatim>\<open>n * y\<close> for a number \<open>n\<close> and a float \<open>y\<close>: an int is converted to a float first.\<close>

fun mul_float :: "pynum \<Rightarrow> pyfloat \<Rightarrow> py_exn + pyfloat" where
  "mul_float (NInt i) y =
     (case float_of_int i of Inl e \<Rightarrow> Inl e | Inr x \<Rightarrow> Inr (float_mul x y))"
| "mul_float (NFloat x) y = Inr (float_mul x y)"

text \<open>\<^verbatim>\<open>x < y\<close> on two floats: false whenever a NaN is involved.\<close>

fun float_less :: "pyfloat \<Rightarrow> pyfloat \<Rightarrow> bool" where
  "float_less NaN y = False"
| "float_less x NaN = False"
| "float_less (Fin a) (Fin b) = (a < b)"
| "float_less x PInf = (x \<noteq> PInf)"
| "float_less NInf y = (y \<noteq> NInf)"
| "float_less x y = False"

text \<open>
  Python compares an int with a float by their exact values, without rounding the int.
  \<open>exact\<close> gives the exact value of a number; \<open>num_less a b\<close> is \<^verbatim>\<open>a < b\<close>, and
  \<^verbatim>\<open>a > b\<close> is \<open>num_less b a\<close>.
\<close>

fun exact :: "pynum \<Rightarrow> pyfloat" where
  "exact (NInt i) = Fin (of_int i)"
| "exact (NFloat x) = x"

definition num_less :: "pynum \<Rightarrow> pynum \<Rightarrow> bool" where
  "num_less a b = float_less (exact a) (exact b)"

subsection \<open>Operations on values\<close>

text \<open>Truth value testing, as \<^verbatim>\<open>if not progress\<close> and \<^verbatim>\<open>if durations\<close> use it.\<close>

fun py_truthy :: "pyval \<Rightarrow> bool" where
  "py_truthy VNone = False"
| "py_truthy (VBool b) = b"
| "py_truthy (VInt n) = (n \<noteq> 0)"
| "py_truthy (VFloat x) = (x \<noteq> Fin 0)"
| "py_truthy (VStr s) = (s \<noteq> [])"
| "py_truthy (VList xs) = (xs \<noteq> [])"
| "py_truthy (VDict d) = (d \<noteq> [])"

text \<open>
  \<^verbatim>\<open>v[key]\<close> with a string key: a dict gives the value or raises \<^verbatim>\<open>KeyError\<close>; a string
  and a list take integer indices only, and nothing else is subscriptable.
\<close>

fun py_getitem :: "pyval \<Rightarrow> string \<Rightarrow> py_exn + pyval" where
  "py_getitem (VDict d) key =
     (case map_of d key of None \<Rightarrow> Inl (KeyError key) | Some v \<Rightarrow> Inr v)"
| "py_getitem v key = Inl TypeError"

text \<open>
  \<^verbatim>\<open>int(s)\<close> on a string, in base 10 and for ASCII text: surrounding whitespace is stripped,
  one sign is allowed, and the digits may be grouped by single underscores.
\<close>

definition is_space :: "char \<Rightarrow> bool" where
  "is_space c \<longleftrightarrow> c \<in> set [CHR 0x20, CHR 0x09, CHR 0x0A, CHR 0x0B, CHR 0x0C, CHR 0x0D]"

definition is_digit :: "char \<Rightarrow> bool" where
  "is_digit c \<longleftrightarrow> 48 \<le> (of_char c :: nat) \<and> (of_char c :: nat) \<le> 57"

definition digit_val :: "char \<Rightarrow> int" where
  "digit_val c = int (of_char c) - 48"

definition strip :: "string \<Rightarrow> string" where
  "strip s = dropWhile is_space (rev (dropWhile is_space (rev s)))"

fun parse_digits :: "string \<Rightarrow> int \<Rightarrow> int option" where
  "parse_digits [] acc = Some acc"
| "parse_digits (c # cs) acc =
     (if is_digit c then parse_digits cs (10 * acc + digit_val c)
      else if c = CHR ''_'' \<and> cs \<noteq> [] \<and> is_digit (hd cs) then parse_digits cs acc
      else None)"

definition parse_unsigned :: "string \<Rightarrow> int option" where
  "parse_unsigned s =
     (case s of [] \<Rightarrow> None | c # cs \<Rightarrow> if is_digit c then parse_digits s 0 else None)"

definition int_of_string :: "string \<Rightarrow> int option" where
  "int_of_string s =
     (case strip s of
        [] \<Rightarrow> None
      | c # cs \<Rightarrow>
          if c = CHR ''-'' then map_option uminus (parse_unsigned cs)
          else if c = CHR ''+'' then parse_unsigned cs
          else parse_unsigned (c # cs))"

text \<open>
  \<^verbatim>\<open>int(v)\<close>: an int is itself, a bool is 0 or 1, a finite float is truncated towards
  zero, an infinity raises \<^verbatim>\<open>OverflowError\<close>, a NaN and a string that is not a number
  raise \<^verbatim>\<open>ValueError\<close>, and \<^verbatim>\<open>None\<close>, lists and dicts raise \<^verbatim>\<open>TypeError\<close>.
\<close>

fun py_int :: "pyval \<Rightarrow> py_exn + int" where
  "py_int (VInt n) = Inr n"
| "py_int (VBool b) = Inr (if b then 1 else 0)"
| "py_int (VFloat (Fin r)) = Inr (if 0 \<le> r then \<lfloor>r\<rfloor> else \<lceil>r\<rceil>)"
| "py_int (VFloat NaN) = Inl ValueError"
| "py_int (VFloat x) = Inl OverflowError"
| "py_int (VStr s) = (case int_of_string s of None \<Rightarrow> Inl ValueError | Some n \<Rightarrow> Inr n)"
| "py_int v = Inl TypeError"

text \<open>
  The expression \<^verbatim>\<open>int(p['durationMs']['triggerExecution']) / 1000\<close>, which the diagnoser
  and the plotter both evaluate inside a \<^verbatim>\<open>try\<close>.
\<close>

definition trigger_seconds :: "pyval \<Rightarrow> py_exn + pyfloat" where
  "trigger_seconds p =
     (case py_getitem p ''durationMs'' of
        Inl e \<Rightarrow> Inl e
      | Inr d \<Rightarrow>
          (case py_getitem d ''triggerExecution'' of
             Inl e \<Rightarrow> Inl e
           | Inr t \<Rightarrow>
               (case py_int t of
                  Inl e \<Rightarrow> Inl e
                | Inr n \<Rightarrow> int_truediv n 1000)))"

subsection \<open>Progress Reader\<close>

definition show_query_progress :: "query \<Rightarrow> outcome" where
  "show_query_progress query =
     (let progress = lastProgress query
      in ([Print [S ''Last Progress Snapshot:''], Print [PJ progress]], None))"

subsection \<open>Performance Diagnoser\<close>

definition not_started :: event where
  "not_started = Print [S ''No progress yet. Query may not have started.'']"

definition slower_line :: event where
  "slower_line = Print [S (CHR 0x0A # ''[DIAGNOSIS] Batch is slower than trigger interval.'')]"

definition slower_advice :: "event list" where
  "slower_advice =
     [slower_line,
      Print [S ''- Tune transformations to reduce load.''],
      Print [S ''- Reduce input rate (e.g., maxOffsetsPerTrigger).''],
      Print [S ''- Consider scaling up cluster cores or executors.'']]"

definition faster_line :: event where
  "faster_line = Print [S (CHR 0x0A # ''[DIAGNOSIS] Batch is much faster than trigger.'')]"

definition faster_advice :: "event list" where
  "faster_advice =
     [faster_line,
      Print [S ''- You may be underutilizing resources.''],
      Print [S ''- Consider reducing trigger interval for lower latency.'']]"

definition balanced_line :: event where
  "balanced_line = Print [S (CHR 0x0A # ''[DIAGNOSIS] Trigger and batch are balanced.'')]"

definition balanced_advice :: "event list" where
  "balanced_advice =
     [balanced_line,
      Print [S ''- Good balance. Monitor input growth and state size.'']]"

definition durations_header :: "pynum \<Rightarrow> pyfloat \<Rightarrow> event list" where
  "durations_header trigger_interval batch_time =
     [Print [S (CHR 0x0A # ''Trigger Interval: ''), PN trigger_interval, S '' seconds''],
      Print [S ''Batch Duration: '', F2 batch_time, S '' seconds'']]"

definition soft_error :: "py_exn \<Rightarrow> event" where
  "soft_error e = Print [S ''Could not extract performance info:'', S '' '', PE e]"

text \<open>The body of the \<^verbatim>\<open>try\<close>: what it printed, and the exception that ended it, if any.\<close>

definition diagnose_body :: "pyval \<Rightarrow> pynum \<Rightarrow> outcome" where
  "diagnose_body progress interval =
     (case trigger_seconds progress of
        Inl e \<Rightarrow> ([], Some e)
      | Inr batch_time \<Rightarrow>
          let trigger_interval = interval;
              printed = durations_header trigger_interval batch_time
          in if num_less trigger_interval (NFloat batch_time)
             then (printed @ slower_advice, None)
             else (case mul_float trigger_interval (Fin (1 / 2)) of
                     Inl e \<Rightarrow> (printed, Some e)
                   | Inr half \<Rightarrow>
                       if float_less batch_time half
                       then (printed @ faster_advice, None)
                       else (printed @ balanced_advice, None)))"

definition diagnose_performance :: "query \<Rightarrow> pynum \<Rightarrow> outcome" where
  "diagnose_performance query interval =
     (let progress = lastProgress query
      in if \<not> py_truthy progress then ([not_started], None)
         else (case diagnose_body progress interval of
                 (printed, Some e) \<Rightarrow> (printed @ [soft_error e], None)
               | (printed, None) \<Rightarrow> (printed, None)))"

subsection \<open>Query Registry Inspector\<close>

definition no_active_queries :: event where
  "no_active_queries = Print [S ''No active streaming queries.'']"

definition query_line :: "nat \<Rightarrow> query \<Rightarrow> pyval \<Rightarrow> event" where
  "query_line i q message =
     Print [S ''['', PI (int i), S ''] ID: '', S (qid q), S '', Name: '', PV (qname q),
            S '', Status: '', PV message]"

text \<open>
  The loop over \<^verbatim>\<open>enumerate(queries, 1)\<close>; \<^verbatim>\<open>q.status['message']\<close> raises
  \<^verbatim>\<open>KeyError\<close> on a status without that key, which ends the loop.
\<close>

fun print_queries :: "(nat \<times> query) list \<Rightarrow> outcome" where
  "print_queries [] = ([], None)"
| "print_queries ((i, q) # rest) =
     (case map_of (status q) ''message'' of
        None \<Rightarrow> ([], Some (KeyError ''message''))
      | Some message \<Rightarrow>
          (case print_queries rest of (printed, e) \<Rightarrow> (query_line i q message # printed, e)))"

definition list_active_queries :: "spark_session \<Rightarrow> outcome" where
  "list_active_queries spark =
     (let queries = active spark
      in if queries = [] then ([no_active_queries], None)
         else print_queries (List.enumerate 1 queries))"

definition stop_all_queries :: "spark_session \<Rightarrow> outcome" where
  "stop_all_queries spark =
     (concat (map (\<lambda>q. [Print [S ''Stopping query ID: '', S (qid q), S '', Name: '', PV (qname q)],
                          Stop (qid q)])
                  (active spark)), None)"

subsection \<open>Synthetic Commit Generator\<close>

text \<open>
  \<^verbatim>\<open>time.sleep(secs)\<close> converts its argument to a signed 64-bit count of nanoseconds: a
  NaN raises \<^verbatim>\<open>ValueError\<close>, a value out of that range \<^verbatim>\<open>OverflowError\<close>, and a
  negative value \<^verbatim>\<open>ValueError\<close>; otherwise the call sleeps for the given seconds.
\<close>

definition sleep_seconds :: "rat \<Rightarrow> py_exn + rat" where
  "sleep_seconds secs =
     (if 2 ^ 63 \<le> \<bar>secs\<bar> * 10 ^ 9 then Inl OverflowError
      else if secs < 0 then Inl ValueError
      else Inr secs)"

fun py_sleep :: "pynum \<Rightarrow> py_exn + rat" where
  "py_sleep (NInt i) = sleep_seconds (of_int i)"
| "py_sleep (NFloat (Fin r)) = sleep_seconds r"
| "py_sleep (NFloat NaN) = Inl ValueError"
| "py_sleep (NFloat x) = Inl OverflowError"

text \<open>
  \<^verbatim>\<open>spark.range(i * rows_per_batch, (i + 1) * rows_per_batch).withColumn("ts",
  current_timestamp())\<close>: the ids from the start up to but excluding the end, each with the
  timestamp of the job that writes them.
\<close>

definition batch_rows :: "spark_session \<Rightarrow> int \<Rightarrow> int \<Rightarrow> (int \<times> nat) list" where
  "batch_rows spark i rows_per_batch =
     map (\<lambda>k. (k, clock spark (nat i))) [i * rows_per_batch .. (i + 1) * rows_per_batch - 1]"

text \<open>The loop, over the values of \<^verbatim>\<open>range(num_batches)\<close> still to come.\<close>

fun commit_loop :: "spark_session \<Rightarrow> string \<Rightarrow> int \<Rightarrow> pynum \<Rightarrow> int list \<Rightarrow> outcome" where
  "commit_loop spark base_path rows_per_batch interval_sec [] = ([], None)"
| "commit_loop spark base_path rows_per_batch interval_sec (i # rest) =
     (let df = batch_rows spark i rows_per_batch;
          committed = [Save ''delta'' ''append'' base_path df,
                  Print [S ''Committed '', PI rows_per_batch, S '' rows to Delta at batch '', PI i]]
      in case py_sleep interval_sec of
           Inl e \<Rightarrow> (committed, Some e)
         | Inr secs \<Rightarrow>
             (case commit_loop spark base_path rows_per_batch interval_sec rest of
                (later, e) \<Rightarrow> (committed @ Sleep secs # later, e)))"

definition simulate_delta_commits ::
  "spark_session \<Rightarrow> string \<Rightarrow> int \<Rightarrow> int \<Rightarrow> pynum \<Rightarrow> outcome" where
  "simulate_delta_commits spark base_path num_batches rows_per_batch interval_sec =
     commit_loop spark base_path rows_per_batch interval_sec [0 .. num_batches - 1]"

subsection \<open>Duration Plotter\<close>

definition no_history :: event where
  "no_history = Print [S ''No progress history available.'']"

definition no_valid_durations :: event where
  "no_valid_durations = Print [S ''No valid durations to plot.'']"

text \<open>
  The loop over the history, on the two lists it appends to. The duration is appended as
  soon as it is computed, before \<^verbatim>\<open>p['timestamp']\<close> is evaluated; an exception in either
  statement leaves the \<^verbatim>\<open>try\<close> and the loop continues with the next snapshot.
\<close>

fun collect :: "pyval list \<Rightarrow> pyfloat list \<times> pyval list \<Rightarrow> pyfloat list \<times> pyval list" where
  "collect [] (durations, timestamps) = (durations, timestamps)"
| "collect (p # ps) (durations, timestamps) =
     (case trigger_seconds p of
        Inl e \<Rightarrow> collect ps (durations, timestamps)
      | Inr d \<Rightarrow>
          (case py_getitem p ''timestamp'' of
             Inl e \<Rightarrow> collect ps (durations @ [d], timestamps)
           | Inr t \<Rightarrow> collect ps (durations @ [d], timestamps @ [t])))"

text \<open>
  The chart. \<^verbatim>\<open>plt.plot(x, y)\<close> raises \<^verbatim>\<open>ValueError\<close> when \<open>x\<close> and \<open>y\<close> differ in
  length; the other plotting calls are taken to return.
\<close>

definition render_chart :: "pyval list \<Rightarrow> pyfloat list \<Rightarrow> outcome" where
  "render_chart timestamps durations =
     (if length timestamps \<noteq> length durations then ([Plt Figure], Some ValueError)
      else ([Plt Figure, Plt (Plot timestamps durations), Plt Xticks,
             Plt (Ylabel ''Trigger Duration (sec)''),
             Plt (Title ''Micro-Batch Execution Time over Time''),
             Plt Grid, Plt TightLayout, Plt Show], None))"

definition plot_task_durations :: "query \<Rightarrow> outcome" where
  "plot_task_durations query =
     (case recentProgress query of
        None \<Rightarrow> ([no_history], None)
      | Some progress_history \<Rightarrow>
          if progress_history = [] then ([no_history], None)
          else (case collect progress_history ([], []) of
                  (durations, timestamps) \<Rightarrow>
                    if durations \<noteq> [] then render_chart timestamps durations
                    else ([no_valid_durations], None)))"

subsection \<open>Partition/Core Auditor\<close>

text \<open>The UTF-8 bytes of the warning sign (U+26A0 U+FE0F) and of the check mark (U+2705).\<close>

definition warning_sign :: string where
  "warning_sign = [CHR 0xE2, CHR 0x9A, CHR 0xA0, CHR 0xEF, CHR 0xB8, CHR 0x8F]"

definition check_mark :: string where
  "check_mark = [CHR 0xE2, CHR 0x9C, CHR 0x85]"

definition streaming_warning :: event where
  "streaming_warning = Print [S (warning_sign @
     '' Cannot check partitions on a streaming DataFrame. Try this after writing to Delta or converting to batch.'')]"

definition under_partitioned :: event where
  "under_partitioned = Print [S (warning_sign @ '' Under-partitioned: not all cores will be used.'')]"

definition over_partitioned :: event where
  "over_partitioned = Print [S (warning_sign @ '' Over-partitioned: could lead to overhead and small files.'')]"

definition well_balanced :: event where
  "well_balanced = Print [S (check_mark @ '' Partitioning is well balanced with available cores.'')]"

definition check_partitions_and_cores_static :: "spark_session \<Rightarrow> dataframe \<Rightarrow> outcome" where
  "check_partitions_and_cores_static spark df =
     (if isStreaming df then ([streaming_warning], None)
      else
        let num_partitions = numPartitions df;
            total_cores = defaultParallelism spark
        in ([GetNumPartitions, GetDefaultParallelism,
             Print [S ''DataFrame partitions: '', PI num_partitions],
             Print [S ''Available cluster cores: '', PI total_cores],
             (if num_partitions < total_cores then under_partitioned
              else if num_partitions > total_cores * 4 then over_partitioned
              else well_balanced)], None))"

text \<open>The classification a run printed: the last effect of the run.\<close>

definition partition_verdict :: "outcome \<Rightarrow> event" where
  "partition_verdict r = last (fst r)"

subsection \<open>Reading a run\<close>

text \<open>The batches a run appended to a path, in the order of the writes.\<close>

fun commit_of :: "string \<Rightarrow> event \<Rightarrow> (int \<times> nat) list list" where
  "commit_of path (Save fmt mode p rows) = (if mode = ''append'' \<and> p = path then [rows] else [])"
| "commit_of path e = []"

definition commits :: "string \<Rightarrow> event list \<Rightarrow> (int \<times> nat) list list" where
  "commits path tr = concat (map (commit_of path) tr)"

text \<open>The lengths, in seconds, of the sleeps of a run, in order.\<close>

fun sleep_of :: "event \<Rightarrow> rat list" where
  "sleep_of (Sleep secs) = [secs]"
| "sleep_of e = []"

definition slept :: "event list \<Rightarrow> rat list" where
  "slept tr = concat (map sleep_of tr)"

text \<open>The effects of a run that are not prints.\<close>

fun is_print :: "event \<Rightarrow> bool" where
  "is_print (Print l) = True"
| "is_print e = False"

definition beyond_output :: "event list \<Rightarrow> event list" where
  "beyond_output tr = filter (\<lambda>e. \<not> is_print e) tr"

text \<open>The diagnosis a run of the diagnoser printed, if it printed one.\<close>

datatype verdict = Slower | Faster | Balanced

definition diagnosis :: "outcome \<Rightarrow> verdict option" where
  "diagnosis r =
     (if slower_line \<in> set (fst r) then Some Slower
      else if faster_line \<in> set (fst r) then Some Faster
      else if balanced_line \<in> set (fst r) then Some Balanced
      else None)"

text \<open>A snapshot is usable when its duration can be extracted.\<close>

definition usable :: "pyval \<Rightarrow> bool" where
  "usable p \<longleftrightarrow> \<not> isl (trigger_seconds p)"

section \<open>Properties\<close>

subsection \<open>Floating-point arithmetic: the exponent and the rounding\<close>

lemma bit_length_upper: "n < 2 ^ bit_length n"
proof (induction n rule: bit_length.induct)
  case (1 n)
  show ?case
  proof (cases "n = 0")
    case True
    then show ?thesis by (simp add: bit_length.simps)
  next
    case False
    with 1 have "n div 2 < 2 ^ bit_length (n div 2)" by simp
    then have "n < 2 * 2 ^ bit_length (n div 2)" by linarith
    with False show ?thesis by (simp add: bit_length.simps [of n])
  qed
qed

lemma bit_length_lower: "0 < n \<Longrightarrow> 2 ^ bit_length n \<le> 2 * n"
proof (induction n rule: bit_length.induct)
  case (1 n)
  then have n: "n \<noteq> 0" by simp
  show ?case
  proof (cases "n div 2 = 0")
    case True
    with n have "n = 1" by linarith
    then show ?thesis by (simp add: bit_length.simps [of "Suc 0"] bit_length.simps [of 0])
  next
    case False
    with 1 n have "2 ^ bit_length (n div 2) \<le> 2 * (n div 2)" by simp
    then have "2 * 2 ^ bit_length (n div 2) \<le> 2 * n" by linarith
    with n show ?thesis by (simp add: bit_length.simps [of n])
  qed
qed

lemma pow2_powi: "pow2 e = 2 powi e"
  by (simp add: pow2_def power_int_def inverse_eq_divide power_one_over)

lemma pow2_pos [simp]: "0 < pow2 e"
  by (simp add: pow2_powi)

lemma pow2_nonneg [simp]: "0 \<le> pow2 e"
  using pow2_pos [of e] by (rule less_imp_le)

lemma pow2_add: "pow2 (a + b) = pow2 a * pow2 b"
  by (simp add: pow2_powi power_int_add)

lemma pow2_mono: "a \<le> b \<Longrightarrow> pow2 a \<le> pow2 b"
  by (simp add: pow2_powi power_int_increasing)

lemma pow2_less_imp: "pow2 a < pow2 b \<Longrightarrow> a < b"
  using pow2_mono [of b a] by (cases "a < b") auto

lemma pow2_nat: "pow2 (int n) = 2 ^ n"
  by (simp add: pow2_def)

lemma pow2_numeral: "pow2 (numeral k) = 2 ^ numeral k"
  by (simp add: pow2_def)

lemma pow2_0 [simp]: "pow2 0 = 1"
  by (simp add: pow2_def)

lemma floor_log2_lower:
  assumes "0 < x"
  shows "pow2 (floor_log2 x) \<le> x"
proof -
  obtain p q where pq: "quotient_of x = (p, q)" by (cases "quotient_of x")
  then have q: "0 < q" and x: "x = of_int p / of_int q"
    by (auto dest: quotient_of_denom_pos quotient_of_div)
  with assms have p: "0 < p"
    by (simp add: zero_less_divide_iff)
  define d where "d = int (bit_length (nat p)) - int (bit_length (nat q))"
  show ?thesis
  proof (cases "pow2 d \<le> x")
    case True
    then show ?thesis by (simp add: floor_log2_def pq d_def)
  next
    case False
    have up: "(2::rat) ^ bit_length (nat p) \<le> 2 * of_int p"
    proof -
      have "2 ^ bit_length (nat p) \<le> 2 * nat p"
        using p by (intro bit_length_lower) simp
      then have "(of_nat (2 ^ bit_length (nat p)) :: rat) \<le> of_nat (2 * nat p)"
        by (rule of_nat_mono)
      then show ?thesis using p by simp
    qed
    have lo: "of_int q < (2::rat) ^ bit_length (nat q)"
    proof -
      have "nat q < 2 ^ bit_length (nat q)" by (rule bit_length_upper)
      then have "(of_nat (nat q) :: rat) < of_nat (2 ^ bit_length (nat q))"
        by (rule of_nat_less_imp_less [OF _] | simp)+
      then show ?thesis using q by simp
    qed
    have "pow2 (d - 1) = 2 ^ bit_length (nat p) / (2 * 2 ^ bit_length (nat q))"
      by (simp add: d_def pow2_powi power_int_diff power_int_add)
    also have "\<dots> \<le> (2 * of_int p) / (2 * 2 ^ bit_length (nat q))"
      using up by (intro divide_right_mono) simp_all
    also have "\<dots> = of_int p / 2 ^ bit_length (nat q)"
      by simp
    also have "\<dots> \<le> of_int p / of_int q"
      using lo p q by (simp add: frac_le)
    finally have "pow2 (d - 1) \<le> x" by (simp add: x)
    with False show ?thesis by (simp add: floor_log2_def pq d_def)
  qed
qed

lemma rhe_of_int: "round_half_even (of_int k) = k"
  by (simp add: round_half_even_def)

lemma rhe_ge: "of_int k \<le> w \<Longrightarrow> k \<le> round_half_even w"
proof -
  assume "of_int k \<le> w"
  then have "k \<le> \<lfloor>w\<rfloor>" by (simp add: le_floor_iff)
  then show ?thesis by (simp add: round_half_even_def Let_def)
qed

lemma rhe_le: "w \<le> of_int k \<Longrightarrow> round_half_even w \<le> k"
proof -
  assume w: "w \<le> of_int k"
  then have f: "\<lfloor>w\<rfloor> \<le> k" by (metis floor_mono floor_of_int)
  show ?thesis
  proof (cases "w = of_int \<lfloor>w\<rfloor>")
    case True
    then have "w - of_int \<lfloor>w\<rfloor> < 1 / 2" by simp
    with f show ?thesis by (simp add: round_half_even_def Let_def)
  next
    case False
    moreover have "of_int \<lfloor>w\<rfloor> \<le> w" by (rule of_int_floor_le)
    ultimately have "of_int \<lfloor>w\<rfloor> < w" by linarith
    with w have "of_int \<lfloor>w\<rfloor> < (of_int k :: rat)" by linarith
    then have "\<lfloor>w\<rfloor> < k" by simp
    then show ?thesis by (simp add: round_half_even_def Let_def)
  qed
qed

lemma rhe_err: "\<bar>of_int (round_half_even w) - w\<bar> \<le> 1 / 2"
proof -
  have "of_int \<lfloor>w\<rfloor> \<le> w" "w < of_int \<lfloor>w\<rfloor> + 1" by linarith+
  then show ?thesis by (auto simp: round_half_even_def Let_def)
qed

lemma rhe_le_double:
  assumes "0 \<le> w"
  shows "of_int (round_half_even w) \<le> 2 * w"
proof -
  have b: "of_int \<lfloor>w\<rfloor> \<le> w" "w < of_int \<lfloor>w\<rfloor> + 1" by linarith+
  have f0: "0 \<le> \<lfloor>w\<rfloor>" using assms by simp
  then have f0': "(0::rat) \<le> of_int \<lfloor>w\<rfloor>" by simp
  show ?thesis
  proof (cases "w - of_int \<lfloor>w\<rfloor> < 1 / 2")
    case True
    then have "of_int (round_half_even w) = (of_int \<lfloor>w\<rfloor> :: rat)"
      by (simp add: round_half_even_def Let_def)
    with b assms show ?thesis by linarith
  next
    case False
    then have "of_int (round_half_even w) \<le> of_int \<lfloor>w\<rfloor> + (1::rat)"
      by (simp add: round_half_even_def Let_def)
    moreover have "of_int \<lfloor>w\<rfloor> + (1::rat) \<le> 2 * w"
    proof (cases "\<lfloor>w\<rfloor> = 0")
      case True
      with False have "1 / 2 \<le> w" by simp
      moreover from True False assms have "round_half_even w \<le> 1"
        by (simp add: round_half_even_def Let_def)
      ultimately show ?thesis using True by simp
    next
      case False
      with f0 have "1 \<le> \<lfloor>w\<rfloor>" by linarith
      then have "(1::rat) \<le> of_int \<lfloor>w\<rfloor>" by simp
      with b show ?thesis by linarith
    qed
    ultimately show ?thesis by linarith
  qed
qed

lemma ulp_pos [simp]: "0 < ulp x"
  by (simp add: ulp_def)

lemma ulp_nonneg [simp]: "0 \<le> ulp x"
  using ulp_pos [of x] by (rule less_imp_le)

lemma ulp_neq_0 [simp]: "ulp x \<noteq> 0"
  by (metis less_irrefl ulp_pos)

lemma round_double_Fin:
  assumes "round_double x = Fin r"
  shows "r = of_int (round_half_even (x / ulp x)) * ulp x" and "\<bar>r\<bar> < pow2 1024"
proof -
  show "r = of_int (round_half_even (x / ulp x)) * ulp x"
  proof (cases "x = 0")
    case True
    with assms show ?thesis by (simp add: round_double_def rhe_of_int [of 0, simplified])
  next
    case False
    with assms show ?thesis by (simp add: round_double_def Let_def split: if_splits)
  qed
  show "\<bar>r\<bar> < pow2 1024"
  proof (cases "x = 0")
    case True
    with assms show ?thesis by (simp add: round_double_def)
  next
    case False
    with assms show ?thesis by (simp add: round_double_def Let_def split: if_splits)
  qed
qed

lemma round_double_nonneg:
  assumes "0 \<le> x"
  shows "round_double x = Fin r \<Longrightarrow> 0 \<le> r" and "round_double x \<noteq> NInf"
proof -
  have "0 \<le> x / ulp x" using assms by simp
  then have "0 \<le> round_half_even (x / ulp x)"
    by (intro rhe_ge) simp
  then have k: "(0::rat) \<le> of_int (round_half_even (x / ulp x)) * ulp x"
    by simp
  then show "round_double x = Fin r \<Longrightarrow> 0 \<le> r"
    using round_double_Fin(1) [of x r] by simp
  have "- pow2 1024 < 0" by simp
  with k show "round_double x \<noteq> NInf"
    by (simp add: round_double_def Let_def)
qed

lemma round_double_nonpos:
  assumes "x \<le> 0"
  shows "round_double x = Fin r \<Longrightarrow> r \<le> 0" and "round_double x \<noteq> PInf"
proof -
  have "x / ulp x \<le> 0" using assms by (simp add: divide_le_0_iff)
  then have "round_half_even (x / ulp x) \<le> 0"
    by (intro rhe_le) simp
  then have k: "of_int (round_half_even (x / ulp x)) * ulp x \<le> (0::rat)"
    by (simp add: mult_le_0_iff)
  then show "round_double x = Fin r \<Longrightarrow> r \<le> 0"
    using round_double_Fin(1) [of x r] by simp
  have "(0::rat) < pow2 1024" by simp
  with k have "\<not> pow2 1024 \<le> of_int (round_half_even (x / ulp x)) * ulp x"
    by linarith
  then show "round_double x \<noteq> PInf"
    by (simp add: round_double_def Let_def)
qed

lemma round_double_le_double:
  assumes "0 \<le> x"
  shows "round_double x = Fin r \<Longrightarrow> r \<le> 2 * x"
    and "2 * x < pow2 1024 \<Longrightarrow> round_double x \<noteq> PInf"
proof -
  have "0 \<le> x / ulp x" using assms by simp
  then have "of_int (round_half_even (x / ulp x)) \<le> 2 * (x / ulp x)"
    by (rule rhe_le_double)
  then have "of_int (round_half_even (x / ulp x)) * ulp x \<le> 2 * (x / ulp x) * ulp x"
    by (intro mult_right_mono) simp_all
  then have k: "of_int (round_half_even (x / ulp x)) * ulp x \<le> 2 * x"
    by simp
  then show "round_double x = Fin r \<Longrightarrow> r \<le> 2 * x"
    using round_double_Fin(1) [of x r] by simp
  assume "2 * x < pow2 1024"
  with k have "\<not> pow2 1024 \<le> of_int (round_half_even (x / ulp x)) * ulp x"
    by linarith
  then show "round_double x \<noteq> PInf"
    by (simp add: round_double_def Let_def)
qed

lemma round_double_err:
  assumes "round_double x = Fin r"
  shows "\<bar>r - x\<bar> \<le> ulp x / 2"
proof -
  have "\<bar>of_int (round_half_even (x / ulp x)) - x / ulp x\<bar> \<le> 1 / 2"
    by (rule rhe_err)
  then have "\<bar>of_int (round_half_even (x / ulp x)) - x / ulp x\<bar> * ulp x \<le> 1 / 2 * ulp x"
    by (intro mult_right_mono) simp_all
  moreover have "\<bar>of_int (round_half_even (x / ulp x)) - x / ulp x\<bar> * ulp x
      = \<bar>of_int (round_half_even (x / ulp x)) * ulp x - x\<bar>"
  proof -
    have "\<bar>of_int (round_half_even (x / ulp x)) - x / ulp x\<bar> * ulp x
        = \<bar>(of_int (round_half_even (x / ulp x)) - x / ulp x) * ulp x\<bar>"
      by (simp add: abs_mult)
    also have "(of_int (round_half_even (x / ulp x)) - x / ulp x) * ulp x
        = of_int (round_half_even (x / ulp x)) * ulp x - x"
      by (simp add: left_diff_distrib)
    finally show ?thesis .
  qed
  ultimately show ?thesis
    using round_double_Fin(1) [OF assms] by simp
qed

lemma ulp_relative:
  assumes "pow2 (- 1022) \<le> \<bar>x\<bar>"
  shows "ulp x \<le> \<bar>x\<bar> * pow2 (- 52)"
proof -
  have x: "0 < \<bar>x\<bar>" using assms pow2_pos [of "- 1022"] by linarith
  have "pow2 (max (floor_log2 \<bar>x\<bar>) (- 1022)) \<le> \<bar>x\<bar>"
    using floor_log2_lower [OF x] assms by (simp add: max_def)
  then have "pow2 (max (floor_log2 \<bar>x\<bar>) (- 1022)) * pow2 (- 52) \<le> \<bar>x\<bar> * pow2 (- 52)"
    by (intro mult_right_mono) simp_all
  moreover have "ulp x = pow2 (max (floor_log2 \<bar>x\<bar>) (- 1022)) * pow2 (- 52)"
    by (simp add: ulp_def pow2_add [symmetric])
  ultimately show ?thesis by simp
qed

lemma pow2_half: "pow2 (e - 1) = pow2 e / 2"
  by (simp add: pow2_powi power_int_diff)

lemma round_double_relative:
  assumes "pow2 (- 1022) \<le> \<bar>x\<bar>" and "round_double x = Fin r"
  shows "\<bar>r - x\<bar> \<le> \<bar>x\<bar> * pow2 (- 53)"
proof -
  have "\<bar>r - x\<bar> \<le> ulp x / 2" by (rule round_double_err [OF assms(2)])
  also have "\<dots> \<le> \<bar>x\<bar> * pow2 (- 52) / 2"
    using ulp_relative [OF assms(1)] by simp
  also have "\<dots> = \<bar>x\<bar> * pow2 (- 53)"
    using pow2_half [of "- 52"] by simp
  finally show ?thesis .
qed

text \<open>Below \<open>2 ^ E\<close> the spacing is at most \<open>2 ^ (E - 53)\<close>, and divides it.\<close>

lemma ulp_below:
  assumes "x \<noteq> 0" and "\<bar>x\<bar> < pow2 E" and "- 1022 < E"
  shows "\<exists>n. pow2 (E - 53) = 2 ^ n * ulp x"
proof -
  have "pow2 (floor_log2 \<bar>x\<bar>) < pow2 E"
    using floor_log2_lower [of "\<bar>x\<bar>"] assms by simp
  then have "floor_log2 \<bar>x\<bar> < E" by (rule pow2_less_imp)
  define m where "m = max (floor_log2 \<bar>x\<bar>) (- 1022) - 52"
  have m: "m \<le> E - 53"
    using \<open>floor_log2 \<bar>x\<bar> < E\<close> assms(3) by (simp add: m_def)
  have u: "ulp x = pow2 m"
    by (simp add: ulp_def m_def)
  define n where "n = nat (E - 53 - m)"
  have "E - 53 = int n + m"
    using m by (simp add: n_def)
  then have "pow2 (E - 53) = pow2 (int n + m)"
    by simp
  also have "\<dots> = 2 ^ n * ulp x"
    by (simp only: pow2_add pow2_nat u)
  finally show ?thesis by blast
qed

lemma ulp_below_le:
  assumes "x \<noteq> 0" and "\<bar>x\<bar> < pow2 E" and "- 1022 < E"
  shows "ulp x \<le> pow2 (E - 53)"
proof -
  obtain n where n: "pow2 (E - 53) = 2 ^ n * ulp x"
    using ulp_below [OF assms] by blast
  have "1 * ulp x \<le> 2 ^ n * ulp x"
    by (intro mult_right_mono) simp_all
  with n show ?thesis by simp
qed

lemma on_grid_below:
  assumes "x \<noteq> 0" and "\<bar>x\<bar> < pow2 E" and "- 1022 < E"
  shows "\<exists>k'. of_int k * pow2 (E - 53) = of_int k' * ulp x"
proof -
  obtain n where n: "pow2 (E - 53) = 2 ^ n * ulp x"
    using ulp_below [OF assms] by blast
  have "of_int k * pow2 (E - 53) = of_int (k * 2 ^ n) * ulp x"
    by (simp add: n)
  then show ?thesis by blast
qed

lemma round_double_grid_le:
  assumes "round_double x = Fin r" and "x \<le> of_int k * ulp x"
  shows "r \<le> of_int k * ulp x"
proof -
  have "x / ulp x \<le> of_int k"
    using assms(2) by (simp add: pos_divide_le_eq)
  then have "round_half_even (x / ulp x) \<le> k" by (rule rhe_le)
  then have "(of_int (round_half_even (x / ulp x)) :: rat) \<le> of_int k" by simp
  then have "of_int (round_half_even (x / ulp x)) * ulp x \<le> of_int k * ulp x"
    by (intro mult_right_mono) simp_all
  then show ?thesis using round_double_Fin(1) [OF assms(1)] by simp
qed

lemma round_double_grid_ge:
  assumes "round_double x = Fin r" and "of_int k * ulp x \<le> x"
  shows "of_int k * ulp x \<le> r"
proof -
  have "of_int k \<le> x / ulp x"
    using assms(2) by (simp add: pos_le_divide_eq)
  then have "k \<le> round_half_even (x / ulp x)" by (rule rhe_ge)
  then have "(of_int k :: rat) \<le> of_int (round_half_even (x / ulp x))" by simp
  then have "of_int k * ulp x \<le> of_int (round_half_even (x / ulp x)) * ulp x"
    by (intro mult_right_mono) simp_all
  then show ?thesis using round_double_Fin(1) [OF assms(1)] by simp
qed

lemma round_double_on_grid:
  assumes "x = of_int k * ulp x" and "\<bar>x\<bar> < pow2 1024"
  shows "round_double x = Fin x"
proof (cases "x = 0")
  case True
  then show ?thesis by (simp add: round_double_def)
next
  case False
  have "x / ulp x = of_int k"
    using assms(1) by (simp add: nonzero_divide_eq_eq)
  then have "of_int (round_half_even (x / ulp x)) * ulp x = x"
    using assms(1) by (simp add: rhe_of_int)
  with False assms(2) show ?thesis
    by (simp add: round_double_def Let_def abs_less_iff not_le)
qed

subsection \<open>Floating-point arithmetic: half of an interval\<close>

lemma eps_quarter: "pow2 (- 53) \<le> 1 / 4"
proof -
  have "pow2 (- 53) \<le> pow2 (- 2)" by (rule pow2_mono) simp
  then show ?thesis by (simp add: pow2_def)
qed

lemma tiny_le_quarter: "pow2 (- 1022) \<le> 1 / 4"
proof -
  have "pow2 (- 1022) \<le> pow2 (- 2)" by (rule pow2_mono) simp
  then show ?thesis by (simp add: pow2_def)
qed

lemma round_double_not_NaN [simp]: "round_double x \<noteq> NaN"
  by (simp add: round_double_def Let_def)

text \<open>Rounding a number that is at least a quarter: the result is within a quarter of it.\<close>

lemma round_double_near:
  assumes "1 / 4 \<le> z" and "round_double z = Fin r"
  shows "z * (3 / 4) \<le> r" and "r \<le> z * (5 / 4)"
proof -
  have z: "pow2 (- 1022) \<le> \<bar>z\<bar>" "0 \<le> z" "\<bar>z\<bar> = z"
    using assms(1) tiny_le_quarter by linarith+
  have "\<bar>r - z\<bar> \<le> \<bar>z\<bar> * pow2 (- 53)"
    by (rule round_double_relative [OF z(1) assms(2)])
  moreover have "\<bar>z\<bar> * pow2 (- 53) \<le> \<bar>z\<bar> * (1 / 4)"
    by (intro mult_left_mono eps_quarter) simp
  ultimately have "\<bar>r - z\<bar> \<le> z * (1 / 4)"
    using z(3) by simp
  then show "z * (3 / 4) \<le> r" and "r \<le> z * (5 / 4)"
    by linarith+
qed

text \<open>Half of a non-negative interval, as the diagnoser computes it, does not exceed it.\<close>

lemma half_interval_le:
  assumes "exact interval = Fin y" and "0 \<le> y"
    and "mul_float interval (Fin (1 / 2)) = Inr (Fin h)"
  shows "h \<le> y"
proof (cases interval)
  case (NInt i)
  with assms(1) have y: "y = of_int i" by simp
  from NInt assms(3) obtain f where f: "round_double (of_int i) = Fin f"
    and h: "round_double (f * (1 / 2)) = Fin h"
    by (auto simp: float_of_int_def split: pyfloat.splits)
  show ?thesis
  proof (cases "i = 0")
    case True
    with f have "f = 0" by (simp add: round_double_def)
    with h have "h = 0" by (simp add: round_double_def)
    with True y show ?thesis by simp
  next
    case False
    from assms(2) y have "0 \<le> i" by simp
    with False have "1 \<le> i" by linarith
    then have i1: "(1::rat) \<le> of_int i" by simp
    then have "1 / 4 \<le> (of_int i :: rat)" by linarith
    from round_double_near [OF this f]
    have f1: "of_int i * (3 / 4) \<le> f" and f2: "f \<le> of_int i * (5 / 4)" .
    have "1 / 4 \<le> f * (1 / 2)" using f1 i1 by linarith
    from round_double_near(2) [OF this h]
    have "h \<le> f * (1 / 2) * (5 / 4)" .
    with f2 i1 have "h \<le> of_int i" by linarith
    with y show ?thesis by simp
  qed
next
  case (NFloat x)
  with assms(1) have x: "x = Fin y" by simp
  with NFloat assms(3) have h: "round_double (y * (1 / 2)) = Fin h" by simp
  have "0 \<le> y * (1 / 2)" using assms(2) by simp
  from round_double_le_double(1) [OF this h] show ?thesis by simp
qed

lemma half_interval_finite:
  assumes "exact interval = Fin y" and "0 \<le> y" and "y < pow2 1024"
    and "mul_float interval (Fin (1 / 2)) = Inr half"
  shows "\<exists>h. half = Fin h"
proof (cases interval)
  case (NInt i)
  from NInt assms(4) obtain f where f: "round_double (of_int i) = Fin f"
    and h: "half = round_double (f * (1 / 2))"
    by (auto simp: float_of_int_def split: pyfloat.splits)
  from assms(1,2) NInt have "(0::rat) \<le> of_int i" by simp
  from round_double_nonneg(1) [OF this f] have f0: "0 \<le> f" .
  then have f0': "0 \<le> f * (1 / 2)" by simp
  have "2 * (f * (1 / 2)) < pow2 1024"
    using round_double_Fin(2) [OF f] by simp
  from round_double_le_double(2) [OF f0' this] round_double_nonneg(2) [OF f0']
  show ?thesis
    by (cases "round_double (f * (1 / 2))") (simp_all add: h round_double_def [of 0])
next
  case (NFloat x)
  with assms(1) have x: "x = Fin y" by simp
  with NFloat assms(4) have h: "half = round_double (y * (1 / 2))" by auto
  have y0: "0 \<le> y * (1 / 2)" using assms(2) by simp
  have "2 * (y * (1 / 2)) < pow2 1024" using assms(3) by simp
  from round_double_le_double(2) [OF y0 this] round_double_nonneg(2) [OF y0]
  show ?thesis
    by (cases "round_double (y * (1 / 2))") (simp_all add: h)
qed

lemma half_interval_nonpos:
  assumes "exact interval = Fin y" and "y \<le> 0"
    and "mul_float interval (Fin (1 / 2)) = Inr half"
  shows "half = NInf \<or> (\<exists>h. half = Fin h \<and> h \<le> 0)"
proof -
  have "\<exists>z. z \<le> 0 \<and> half = round_double z"
  proof (cases interval)
    case (NInt i)
    from NInt assms(3) obtain f where f: "round_double (of_int i) = Fin f"
      and h: "half = round_double (f * (1 / 2))"
      by (auto simp: float_of_int_def split: pyfloat.splits)
    from assms(1,2) NInt have "of_int i \<le> (0::rat)" by simp
    from round_double_nonpos(1) [OF this f] have "f * (1 / 2) \<le> 0" by simp
    with h show ?thesis by blast
  next
    case (NFloat x)
    with assms(1) have x: "x = Fin y" by simp
    with NFloat assms(3) have "half = round_double (y * (1 / 2))" by auto
    moreover have "y * (1 / 2) \<le> 0" using assms(2) by simp
    ultimately show ?thesis by blast
  qed
  then obtain z where z: "z \<le> 0" "half = round_double z" by blast
  from round_double_nonpos [OF z(1)] show ?thesis
    by (cases "round_double z") (auto simp: z(2))
qed

subsection \<open>Floating-point arithmetic: comparisons that are exact\<close>

lemma truediv_value:
  assumes "int_truediv T 1000 = Inr bt"
  shows "round_double (of_int T / 1000) = bt" and "\<exists>x. bt = Fin x"
proof -
  have c: "(case round_double (of_int T / 1000) of Fin r \<Rightarrow> Inr (Fin r) | _ \<Rightarrow> Inl OverflowError)
      = Inr bt"
    using assms by (simp add: int_truediv_def)
  show "round_double (of_int T / 1000) = bt"
    using c by (simp split: pyfloat.splits)
  then show "\<exists>x. bt = Fin x"
    using c by (simp split: pyfloat.splits)
qed

lemma pow2_m10: "pow2 (- 10) = 1 / 1024"
  by (simp add: pow2_def)

lemma pow2_m1: "pow2 (- 1) = 1 / 2"
  by (simp add: pow2_def)

text \<open>
  Below \<open>2 ^ 43\<close> seconds the rounded quotient compares with an integer, and with half an
  integer, as the exact quotient does.
\<close>

lemma seconds_against_integers:
  assumes x: "round_double (of_int T / 1000) = Fin x" and "0 \<le> T" and "T < 2 ^ 43 * 1000"
  shows "of_int i < x \<longleftrightarrow> 1000 * i < T" and "x < of_int i / 2 \<longleftrightarrow> 2 * T < 1000 * i"
proof -
  define z :: rat where "z = of_int T / 1000"
  have zT: "z * 1000 = of_int T" by (simp add: z_def)
  have both: "(of_int i < x \<longleftrightarrow> 1000 * i < T) \<and> (x < of_int i / 2 \<longleftrightarrow> 2 * T < 1000 * i)"
  proof (cases "T = 0")
    case True
    with x have "x = 0" by (simp add: round_double_def)
    with True show ?thesis by simp
  next
    case False
    with assms(2) have "0 < T" by simp
    then have "(0::rat) < of_int T" by simp
    with zT have z0: "0 < z" by (simp add: z_def)
    have "(of_int T :: rat) < of_int (2 ^ 43 * 1000)"
      using assms(3) by (simp only: of_int_less_iff)
    then have "z < 2 ^ 43" by (simp add: z_def)
    then have zE: "\<bar>z\<bar> < pow2 43" and zn: "z \<noteq> 0"
      using z0 by (simp_all add: pow2_def)
    have e: "- 1022 < (43::int)" by simp
    have grid: "\<exists>k'. of_int k * pow2 (- 10) = of_int k' * ulp z" for k
      using on_grid_below [OF zn zE e, of k] by simp
    have "ulp z \<le> pow2 (- 10)"
      using ulp_below_le [OF zn zE e] by simp
    moreover have "\<bar>x - z\<bar> \<le> ulp z / 2"
      using round_double_err [of z x] x by (simp add: z_def)
    ultimately have err: "\<bar>x - z\<bar> \<le> 1 / 2048"
      by (simp add: pow2_m10)
    have xz: "round_double z = Fin x" using x by (simp add: z_def)
    have a: "of_int i < x \<longleftrightarrow> 1000 * i < T"
    proof
      assume "1000 * i < T"
      then have "1000 * i + 1 \<le> T" by simp
      then have "(of_int (1000 * i + 1) :: rat) \<le> of_int T" by (simp only: of_int_le_iff)
      then have "of_int i + 1 / 1000 \<le> z" using zT by simp
      with err show "of_int i < x" by linarith
    next
      assume ix: "of_int i < x"
      show "1000 * i < T"
      proof (rule ccontr)
        assume "\<not> 1000 * i < T"
        then have "T \<le> 1000 * i" by simp
        then have "(of_int T :: rat) \<le> of_int (1000 * i)" by (simp only: of_int_le_iff)
        then have zi: "z \<le> of_int i" using zT by simp
        obtain k' where k': "of_int (i * 1024) * pow2 (- 10) = of_int k' * ulp z"
          using grid by blast
        then have "of_int i = of_int k' * ulp z" by (simp add: pow2_m10)
        with zi round_double_grid_le [OF xz, of k'] have "x \<le> of_int i" by simp
        with ix show False by simp
      qed
    qed
    have b: "x < of_int i / 2 \<longleftrightarrow> 2 * T < 1000 * i"
    proof
      assume "2 * T < 1000 * i"
      then have "2 * T + 1 \<le> 1000 * i" by simp
      then have "(of_int (2 * T + 1) :: rat) \<le> of_int (1000 * i)" by (simp only: of_int_le_iff)
      then have "z \<le> of_int i / 2 - 1 / 2000" using zT by simp
      with err show "x < of_int i / 2" by linarith
    next
      assume xi: "x < of_int i / 2"
      show "2 * T < 1000 * i"
      proof (rule ccontr)
        assume "\<not> 2 * T < 1000 * i"
        then have "1000 * i \<le> 2 * T" by simp
        then have "(of_int (1000 * i) :: rat) \<le> of_int (2 * T)" by (simp only: of_int_le_iff)
        then have zi: "of_int i / 2 \<le> z" using zT by simp
        obtain k' where k': "of_int (i * 512) * pow2 (- 10) = of_int k' * ulp z"
          using grid by blast
        then have "of_int i / 2 = of_int k' * ulp z" by (simp add: pow2_m10)
        with zi round_double_grid_ge [OF xz, of k'] have "of_int i / 2 \<le> x" by simp
        with xi show False by simp
      qed
    qed
    from a b show ?thesis by simp
  qed
  from both show "of_int i < x \<longleftrightarrow> 1000 * i < T" by simp
  from both show "x < of_int i / 2 \<longleftrightarrow> 2 * T < 1000 * i" by simp
qed

lemma round_double_half_integer:
  assumes "\<bar>of_int k / 2 :: rat\<bar> < 2 ^ 52"
  shows "round_double (of_int k / 2) = Fin (of_int k / 2)"
proof (cases "k = 0")
  case True
  then show ?thesis by (simp add: round_double_def)
next
  case False
  define y :: rat where "y = of_int k / 2"
  have yn: "y \<noteq> 0" using False by (simp add: y_def)
  have yE: "\<bar>y\<bar> < pow2 52" using assms by (simp add: y_def pow2_def)
  have e: "- 1022 < (52::int)" by simp
  obtain k' where "of_int k * pow2 (- 1) = of_int k' * ulp y"
    using on_grid_below [OF yn yE e, of k] by auto
  then have g: "y = of_int k' * ulp y" by (simp add: pow2_m1 y_def)
  have "pow2 52 \<le> pow2 1024" by (rule pow2_mono) simp
  with yE have "\<bar>y\<bar> < pow2 1024" by linarith
  from round_double_on_grid [OF g this] show ?thesis by (simp add: y_def)
qed

lemma half_of_int_interval:
  assumes "\<bar>i\<bar> < 2 ^ 52"
  shows "mul_float (NInt i) (Fin (1 / 2)) = Inr (Fin (of_int i / 2))"
proof -
  have "\<bar>of_int i :: rat\<bar> < 2 ^ 52"
  proof -
    have "(of_int \<bar>i\<bar> :: rat) < of_int (2 ^ 52)"
      using assms by (simp only: of_int_less_iff)
    then show ?thesis by simp
  qed
  then have a: "\<bar>of_int (2 * i) / 2 :: rat\<bar> < 2 ^ 52" and b: "\<bar>of_int i / 2 :: rat\<bar> < 2 ^ 52"
    by simp_all
  have "round_double (of_int i) = Fin (of_int i)"
    using round_double_half_integer [OF a] by simp
  moreover have "round_double (of_int i * (1 / 2)) = Fin (of_int i / 2)"
    using round_double_half_integer [OF b] by simp
  ultimately show ?thesis
    by (simp add: float_of_int_def)
qed

subsection \<open>Performance Diagnoser: reading its run\<close>

lemma int_truediv_whole:
  assumes "\<bar>n\<bar> < 2 ^ 51"
  shows "int_truediv (n * 1000) 1000 = Inr (Fin (of_int n))"
proof -
  have "(of_int \<bar>n\<bar> :: rat) < of_int (2 ^ 51)"
    using assms by (simp only: of_int_less_iff)
  then have "\<bar>of_int (2 * n) / 2 :: rat\<bar> < 2 ^ 52" by simp
  from round_double_half_integer [OF this]
  have "round_double (of_int n) = Fin (of_int n)" by simp
  then show ?thesis by (simp add: int_truediv_def)
qed

lemma getitem_truthy: "py_getitem v key = Inr d \<Longrightarrow> py_truthy v"
  by (cases v) (auto split: option.splits)

lemma diagnosis_of_run:
  "diagnosis (durations_header i b @ slower_advice, e) = Some Slower"
  "diagnosis (durations_header i b @ faster_advice, e) = Some Faster"
  "diagnosis (durations_header i b @ balanced_advice, e) = Some Balanced"
  by (simp_all add: diagnosis_def durations_header_def slower_advice_def faster_advice_def
      balanced_advice_def slower_line_def faster_line_def balanced_line_def)

text \<open>A batch that took at least as long as the interval is not faster than half of it.\<close>

lemma not_faster_than_half:
  assumes "exact interval = Fin y" and "y \<le> x" and "0 \<le> x" and "x < pow2 1024"
    and "mul_float interval (Fin (1 / 2)) = Inr half"
  shows "\<not> float_less (Fin x) half"
proof (cases "0 \<le> y")
  case True
  from assms(2,4) have "y < pow2 1024" by simp
  from half_interval_finite [OF assms(1) True this assms(5)]
  obtain h where h: "half = Fin h" by blast
  from half_interval_le [OF assms(1) True] assms(5) h have "h \<le> y" by simp
  with assms(2) h show ?thesis by simp
next
  case False
  then have "y \<le> 0" by simp
  from half_interval_nonpos [OF assms(1) this assms(5)] assms(3)
  show ?thesis by auto
qed


subsection \<open>Partition/Core Auditor\<close>

lemma partition_messages_distinct:
  "under_partitioned \<noteq> over_partitioned"
  "under_partitioned \<noteq> well_balanced"
  "over_partitioned \<noteq> well_balanced"
  "streaming_warning \<noteq> under_partitioned"
  "streaming_warning \<noteq> over_partitioned"
  "streaming_warning \<noteq> well_balanced"
  by (simp_all add: under_partitioned_def over_partitioned_def well_balanced_def
      streaming_warning_def warning_sign_def check_mark_def)

text \<open>
  C3. For a non-streaming data reference with a partition count \<open>P \<ge> 0\<close> and a core count
  \<open>C\<close>, the auditor prints the under-partitioned message exactly when \<open>P < C\<close>, the
  over-partitioned message exactly when \<open>P > C * 4\<close>, and the balanced message otherwise;
  \<open>(2, 8)\<close> is under-partitioned, \<open>(40, 8)\<close> over-partitioned and \<open>(16, 8)\<close> balanced.
\<close>

theorem check_partitions_classification:
  assumes "\<not> isStreaming df" and "0 \<le> numPartitions df"
  shows "(partition_verdict (check_partitions_and_cores_static spark df) = under_partitioned
            \<longleftrightarrow> numPartitions df < defaultParallelism spark)
       \<and> (partition_verdict (check_partitions_and_cores_static spark df) = over_partitioned
            \<longleftrightarrow> numPartitions df > defaultParallelism spark * 4)
       \<and> (partition_verdict (check_partitions_and_cores_static spark df) = well_balanced
            \<longleftrightarrow> \<not> numPartitions df < defaultParallelism spark
               \<and> \<not> numPartitions df > defaultParallelism spark * 4)
       \<and> snd (check_partitions_and_cores_static spark df) = None"
  using assms partition_messages_distinct
  by (auto simp: check_partitions_and_cores_static_def partition_verdict_def Let_def)

theorem check_partitions_classification_witness:
  "partition_verdict (check_partitions_and_cores_static
      \<lparr>defaultParallelism = 8, active = [], clock = (\<lambda>k. k)\<rparr>
      \<lparr>isStreaming = False, numPartitions = 2\<rparr>) = under_partitioned
   \<and> partition_verdict (check_partitions_and_cores_static
      \<lparr>defaultParallelism = 8, active = [], clock = (\<lambda>k. k)\<rparr>
      \<lparr>isStreaming = False, numPartitions = 40\<rparr>) = over_partitioned
   \<and> partition_verdict (check_partitions_and_cores_static
      \<lparr>defaultParallelism = 8, active = [], clock = (\<lambda>k. k)\<rparr>
      \<lparr>isStreaming = False, numPartitions = 16\<rparr>) = well_balanced"
  using check_partitions_classification
      [of "\<lparr>isStreaming = False, numPartitions = 2\<rparr>"
          "\<lparr>defaultParallelism = 8, active = [], clock = (\<lambda>k. k)\<rparr>"]
    check_partitions_classification
      [of "\<lparr>isStreaming = False, numPartitions = 40\<rparr>"
          "\<lparr>defaultParallelism = 8, active = [], clock = (\<lambda>k. k)\<rparr>"]
    check_partitions_classification
      [of "\<lparr>isStreaming = False, numPartitions = 16\<rparr>"
          "\<lparr>defaultParallelism = 8, active = [], clock = (\<lambda>k. k)\<rparr>"]
  by simp

text \<open>
  C6. For a streaming data reference the auditor performs exactly one effect, the printed
  warning: it reads neither the partition count nor the default parallelism, prints no
  classification, and raises nothing.
\<close>

theorem check_partitions_streaming_refused:
  assumes "isStreaming df"
  shows "check_partitions_and_cores_static spark df = ([streaming_warning], None)
       \<and> GetNumPartitions \<notin> set (fst (check_partitions_and_cores_static spark df))
       \<and> GetDefaultParallelism \<notin> set (fst (check_partitions_and_cores_static spark df))
       \<and> under_partitioned \<notin> set (fst (check_partitions_and_cores_static spark df))
       \<and> over_partitioned \<notin> set (fst (check_partitions_and_cores_static spark df))
       \<and> well_balanced \<notin> set (fst (check_partitions_and_cores_static spark df))"
  using assms partition_messages_distinct
  by (simp add: check_partitions_and_cores_static_def streaming_warning_def)

theorem check_partitions_streaming_refused_witness:
  "check_partitions_and_cores_static
      \<lparr>defaultParallelism = 8, active = [], clock = (\<lambda>k. k)\<rparr>
      \<lparr>isStreaming = True, numPartitions = 2\<rparr> = ([streaming_warning], None)"
  using check_partitions_streaming_refused
      [of "\<lparr>isStreaming = True, numPartitions = 2\<rparr>"
          "\<lparr>defaultParallelism = 8, active = [], clock = (\<lambda>k. k)\<rparr>"]
  by simp

subsection \<open>Progress Reader\<close>

text \<open>
  C9. For a query whose last progress snapshot is \<^verbatim>\<open>None\<close>, the reader returns without
  raising; it prints the heading and the JSON text of \<^verbatim>\<open>None\<close> (the word
  \<^verbatim>\<open>null\<close>), and has no effect beyond these two prints.
\<close>

theorem show_query_progress_no_snapshot:
  assumes "lastProgress q = VNone"
  shows "show_query_progress q = ([Print [S ''Last Progress Snapshot:''], Print [PJ VNone]], None)
       \<and> beyond_output (fst (show_query_progress q)) = []"
  using assms by (simp add: show_query_progress_def beyond_output_def)

theorem show_query_progress_no_snapshot_witness:
  "show_query_progress
     \<lparr>qid = ''q1'', qname = VNone, status = [], lastProgress = VNone, recentProgress = None\<rparr>
   = ([Print [S ''Last Progress Snapshot:''], Print [PJ VNone]], None)"
  using show_query_progress_no_snapshot
      [of "\<lparr>qid = ''q1'', qname = VNone, status = [], lastProgress = VNone,
            recentProgress = None\<rparr>"]
  by simp

subsection \<open>Duration Plotter\<close>

text \<open>
  C10. For a query whose recent progress history is absent or empty, the plotter prints the
  no-history message and returns: nothing else is printed and no plotting call is made.
\<close>

theorem plot_task_durations_no_history:
  assumes "recentProgress q = None \<or> recentProgress q = Some []"
  shows "plot_task_durations q = ([no_history], None)
       \<and> beyond_output (fst (plot_task_durations q)) = []"
  using assms by (auto simp: plot_task_durations_def beyond_output_def no_history_def)

theorem plot_task_durations_no_history_witness:
  "plot_task_durations
     \<lparr>qid = ''q1'', qname = VNone, status = [], lastProgress = VNone, recentProgress = None\<rparr>
   = ([no_history], None)
   \<and> plot_task_durations
     \<lparr>qid = ''q1'', qname = VNone, status = [], lastProgress = VNone, recentProgress = Some []\<rparr>
   = ([no_history], None)"
  using plot_task_durations_no_history
      [of "\<lparr>qid = ''q1'', qname = VNone, status = [], lastProgress = VNone,
            recentProgress = None\<rparr>"]
    plot_task_durations_no_history
      [of "\<lparr>qid = ''q1'', qname = VNone, status = [], lastProgress = VNone,
            recentProgress = Some []\<rparr>"]
  by simp

subsection \<open>Query Registry Inspector\<close>

lemma print_queries_all_have_message:
  assumes "\<forall>(i, q) \<in> set iqs. map_of (status q) ''message'' \<noteq> None"
  shows "print_queries iqs
       = (map (\<lambda>(i, q). query_line i q (the (map_of (status q) ''message''))) iqs, None)"
  using assms by (induction iqs) auto

lemma enumerate_members:
  "(i, q) \<in> set (List.enumerate n qs) \<Longrightarrow> q \<in> set qs"
  by (auto simp: in_set_conv_nth nth_enumerate_eq)

text \<open>
  C7. With no active query, listing prints exactly the no-active-queries message and
  stopping has no effect at all. With active queries, each of whose status has a message,
  listing prints one line per query, in order, the \<open>k\<close>-th line (counting from 0) carrying
  the index \<open>k + 1\<close>, the id, the name and the status message of the \<open>k\<close>-th query.
\<close>

theorem registry_inspector:
  "(active spark = [] \<longrightarrow>
      list_active_queries spark = ([no_active_queries], None)
      \<and> stop_all_queries spark = ([], None))
   \<and> (active spark \<noteq> [] \<and> (\<forall>q \<in> set (active spark). map_of (status q) ''message'' \<noteq> None) \<longrightarrow>
      snd (list_active_queries spark) = None
      \<and> length (fst (list_active_queries spark)) = length (active spark)
      \<and> (\<forall>k < length (active spark).
            fst (list_active_queries spark) ! k
            = query_line (k + 1) (active spark ! k)
                (the (map_of (status (active spark ! k)) ''message''))))"
proof (intro conjI impI)
  assume "active spark = []"
  then show "list_active_queries spark = ([no_active_queries], None)"
    by (simp add: list_active_queries_def)
next
  assume "active spark = []"
  then show "stop_all_queries spark = ([], None)"
    by (simp add: stop_all_queries_def)
next
  assume a: "active spark \<noteq> [] \<and> (\<forall>q \<in> set (active spark). map_of (status q) ''message'' \<noteq> None)"
  let ?iqs = "List.enumerate 1 (active spark)"
  let ?line = "\<lambda>(i, q). query_line i q (the (map_of (status q) ''message''))"
  have "\<forall>(i, q) \<in> set ?iqs. map_of (status q) ''message'' \<noteq> None"
    using a enumerate_members by fastforce
  then have run: "list_active_queries spark = (map ?line ?iqs, None)"
    using a by (simp add: list_active_queries_def print_queries_all_have_message)
  show "snd (list_active_queries spark) = None"
    by (simp add: run)
  show "length (fst (list_active_queries spark)) = length (active spark)"
    by (simp add: run)
  show "\<forall>k < length (active spark).
          fst (list_active_queries spark) ! k
          = query_line (k + 1) (active spark ! k)
              (the (map_of (status (active spark ! k)) ''message''))"
    by (simp add: run nth_enumerate_eq)
qed

theorem registry_inspector_witness:
  "list_active_queries \<lparr>defaultParallelism = 8, active = [], clock = (\<lambda>k. k)\<rparr>
     = ([no_active_queries], None)
   \<and> stop_all_queries \<lparr>defaultParallelism = 8, active = [], clock = (\<lambda>k. k)\<rparr> = ([], None)
   \<and> fst (list_active_queries \<lparr>defaultParallelism = 8,
        active = [\<lparr>qid = ''a1'', qname = VNone, status = [(''message'', VStr ''Waiting'')],
                    lastProgress = VNone, recentProgress = None\<rparr>,
                  \<lparr>qid = ''b2'', qname = VStr ''sink'', status = [(''message'', VStr ''Busy'')],
                    lastProgress = VNone, recentProgress = None\<rparr>],
        clock = (\<lambda>k. k)\<rparr>) ! 1
     = Print [S ''['', PI 2, S ''] ID: '', S ''b2'', S '', Name: '', PV (VStr ''sink''),
              S '', Status: '', PV (VStr ''Busy'')]"
  using registry_inspector [of "\<lparr>defaultParallelism = 8, active = [], clock = (\<lambda>k. k)\<rparr>"]
    registry_inspector [of "\<lparr>defaultParallelism = 8,
        active = [\<lparr>qid = ''a1'', qname = VNone, status = [(''message'', VStr ''Waiting'')],
                    lastProgress = VNone, recentProgress = None\<rparr>,
                  \<lparr>qid = ''b2'', qname = VStr ''sink'', status = [(''message'', VStr ''Busy'')],
                    lastProgress = VNone, recentProgress = None\<rparr>],
        clock = (\<lambda>k. k)\<rparr>"]
  by (simp add: query_line_def)


subsection \<open>Synthetic Commit Generator\<close>

text \<open>
  One iteration of the loop with a sleep length the runtime accepts: the write, the print
  and the sleep.
\<close>

lemma commit_loop_run:
  assumes "py_sleep interval_sec = Inr secs"
  shows "commit_loop spark base_path rows_per_batch interval_sec batches
       = (concat (map (\<lambda>i.
            [Save ''delta'' ''append'' base_path (batch_rows spark i rows_per_batch),
             Print [S ''Committed '', PI rows_per_batch, S '' rows to Delta at batch '', PI i],
             Sleep secs]) batches), None)"
  using assms by (induction batches) (simp_all add: Let_def)

lemma commits_of_run:
  "commits base_path (concat (map (\<lambda>i. [Save ''delta'' ''append'' base_path (f i), Print (g i), Sleep secs]) batches))
   = map f batches"
  by (induction batches) (simp_all add: commits_def)

lemma slept_of_run:
  "slept (concat (map (\<lambda>i. [Save fmt mode base_path (f i), Print (g i), Sleep secs]) batches))
   = replicate (length batches) secs"
  by (induction batches) (simp_all add: slept_def)

lemma sum_list_replicate_rat:
  "sum_list (replicate n (secs :: rat)) = of_nat n * secs"
  by (induction n) (simp_all add: algebra_simps)

text \<open>
  C4. For \<open>n \<ge> 0\<close> batches of \<open>r\<close> rows and a sleep length the runtime accepts, the
  generator returns normally, and the batches it appended to the target path are exactly
  \<open>n\<close>, in iteration order; for \<open>r \<ge> 0\<close> the \<open>i\<close>-th of them holds the \<open>r\<close> ids from
  \<open>i * r\<close> to \<open>(i + 1) * r - 1\<close>, in order, all tagged with the timestamp of that write.
\<close>

theorem simulate_delta_commits_appends:
  assumes "0 \<le> n" and "py_sleep interval_sec = Inr secs"
  shows "snd (simulate_delta_commits spark base_path n r interval_sec) = None
       \<and> commits base_path (fst (simulate_delta_commits spark base_path n r interval_sec))
           = map (\<lambda>i. batch_rows spark i r) [0 .. n - 1]
       \<and> int (length (commits base_path
             (fst (simulate_delta_commits spark base_path n r interval_sec)))) = n
       \<and> (\<forall>i. map fst (batch_rows spark i r) = [i * r .. (i + 1) * r - 1]
              \<and> map snd (batch_rows spark i r) = replicate (nat r) (clock spark (nat i))
              \<and> length (batch_rows spark i r) = nat r)"
proof -
  have len: "length [i * r .. (i + 1) * r - 1] = nat r" for i
    by (simp add: algebra_simps)
  have rows: "map fst (batch_rows spark i r) = [i * r .. (i + 1) * r - 1]
       \<and> map snd (batch_rows spark i r) = replicate (nat r) (clock spark (nat i))
       \<and> length (batch_rows spark i r) = nat r" for i
    using len [of i] by (simp add: batch_rows_def comp_def map_replicate_const)
  have run: "commits base_path (fst (simulate_delta_commits spark base_path n r interval_sec))
       = map (\<lambda>i. batch_rows spark i r) [0 .. n - 1]"
    by (simp add: simulate_delta_commits_def commit_loop_run [OF assms(2)] commits_of_run)
  have "snd (simulate_delta_commits spark base_path n r interval_sec) = None"
    by (simp add: simulate_delta_commits_def commit_loop_run [OF assms(2)])
  moreover have "int (length (commits base_path
      (fst (simulate_delta_commits spark base_path n r interval_sec)))) = n"
    using assms(1) by (simp add: run)
  ultimately show ?thesis
    using run rows by blast
qed

theorem simulate_delta_commits_appends_witness:
  "commits ''/tmp/delta/stream_source''
     (fst (simulate_delta_commits \<lparr>defaultParallelism = 8, active = [], clock = (\<lambda>k. 100 + k)\<rparr>
        ''/tmp/delta/stream_source'' 3 10 (NInt 0)))
   = [map (\<lambda>k. (k, 100)) [0 .. 9], map (\<lambda>k. (k, 101)) [10 .. 19], map (\<lambda>k. (k, 102)) [20 .. 29]]
   \<and> snd (simulate_delta_commits \<lparr>defaultParallelism = 8, active = [], clock = (\<lambda>k. 100 + k)\<rparr>
        ''/tmp/delta/stream_source'' 3 10 (NInt 0)) = None"
proof -
  have s: "py_sleep (NInt 0) = Inr 0"
    by (simp add: sleep_seconds_def)
  have u: "[0 .. (2::int)] = [0, 1, 2]"
    by (simp add: upto.simps)
  show ?thesis
    using simulate_delta_commits_appends
      [of 3 "NInt 0" 0 "\<lparr>defaultParallelism = 8, active = [], clock = (\<lambda>k. 100 + k)\<rparr>"
          "''/tmp/delta/stream_source''" 10, OF _ s]
    by (simp add: u batch_rows_def)
qed

text \<open>
  C8. For \<open>n \<ge> 0\<close> batches and a sleep length the runtime accepts, every iteration ends
  with one sleep of that length, so two consecutive writes are separated by a sleep; the
  run sleeps \<open>n\<close> times, for \<open>n\<close> times the interval in total.
\<close>

theorem simulate_delta_commits_sleeps:
  assumes "0 \<le> n" and "py_sleep interval_sec = Inr secs"
  shows "fst (simulate_delta_commits spark base_path n r interval_sec)
           = concat (map (\<lambda>i.
               [Save ''delta'' ''append'' base_path (batch_rows spark i r),
                Print [S ''Committed '', PI r, S '' rows to Delta at batch '', PI i],
                Sleep secs]) [0 .. n - 1])
       \<and> slept (fst (simulate_delta_commits spark base_path n r interval_sec))
           = replicate (nat n) secs
       \<and> int (length (slept (fst (simulate_delta_commits spark base_path n r interval_sec)))) = n
       \<and> sum_list (slept (fst (simulate_delta_commits spark base_path n r interval_sec)))
           = of_int n * secs"
proof -
  have run: "simulate_delta_commits spark base_path n r interval_sec
       = (concat (map (\<lambda>i.
               [Save ''delta'' ''append'' base_path (batch_rows spark i r),
                Print [S ''Committed '', PI r, S '' rows to Delta at batch '', PI i],
                Sleep secs]) [0 .. n - 1]), None)"
    by (simp add: simulate_delta_commits_def commit_loop_run [OF assms(2)])
  have sl: "slept (fst (simulate_delta_commits spark base_path n r interval_sec))
       = replicate (nat n) secs"
    by (simp add: run slept_of_run)
  have "sum_list (replicate (nat n) secs) = of_int n * secs"
    using assms(1) by (simp add: sum_list_replicate_rat)
  then show ?thesis
    using assms(1) run sl by simp
qed

theorem simulate_delta_commits_sleeps_witness:
  "slept (fst (simulate_delta_commits \<lparr>defaultParallelism = 8, active = [], clock = (\<lambda>k. k)\<rparr>
        ''/tmp/delta/stream_source'' 3 10 (NInt 20))) = [20, 20, 20]
   \<and> sum_list (slept (fst (simulate_delta_commits
        \<lparr>defaultParallelism = 8, active = [], clock = (\<lambda>k. k)\<rparr>
        ''/tmp/delta/stream_source'' 3 10 (NInt 20)))) = 60"
proof -
  have s: "py_sleep (NInt 20) = Inr 20"
    by (simp add: sleep_seconds_def)
  have three: "replicate 3 (20 :: rat) = [20, 20, 20]"
    by (simp add: numeral_3_eq_3)
  show ?thesis
    using simulate_delta_commits_sleeps
      [of 3 "NInt 20" 20 "\<lparr>defaultParallelism = 8, active = [], clock = (\<lambda>k. k)\<rparr>"
          "''/tmp/delta/stream_source''" 10, OF _ s, THEN conjunct2]
    by (simp add: three)
qed


subsection \<open>Duration Plotter: collecting the points\<close>

text \<open>
  A history in which every snapshot with a usable duration also has a timestamp gives two
  lists of the same length: the durations and the timestamps of those snapshots, in the
  order of the history.
\<close>

lemma collect_with_timestamps:
  assumes "\<forall>p \<in> set ps. usable p \<longrightarrow> \<not> isl (py_getitem p ''timestamp'')"
  shows "collect ps (ds, ts)
       = (ds @ map (\<lambda>p. projr (trigger_seconds p)) (filter usable ps),
          ts @ map (\<lambda>p. projr (py_getitem p ''timestamp'')) (filter usable ps))"
  using assms
proof (induction ps arbitrary: ds ts)
  case Nil
  then show ?case by simp
next
  case (Cons p ps)
  then show ?case
    by (cases "trigger_seconds p"; cases "py_getitem p ''timestamp''")
      (simp_all add: usable_def)
qed

text \<open>The duration of a snapshot whose field is a whole number of seconds, and of one whose
  field is not a number.\<close>

lemma trigger_seconds_whole:
  assumes "\<bar>n\<bar> < 2 ^ 51"
  shows "trigger_seconds (VDict ((''durationMs'', VDict [(''triggerExecution'', VInt (n * 1000))]) # rest))
       = Inr (Fin (of_int n))"
  by (simp add: trigger_seconds_def int_truediv_whole [OF assms])

lemma int_of_string_not_a_number: "int_of_string ''n/a'' = None"
  by (simp add: int_of_string_def strip_def is_space_def parse_unsigned_def is_digit_def)

lemma trigger_seconds_not_a_number:
  "trigger_seconds (VDict ((''durationMs'', VDict [(''triggerExecution'', VStr ''n/a'')]) # rest))
   = Inl ValueError"
  by (simp add: trigger_seconds_def int_of_string_not_a_number)

lemma trigger_seconds_no_durations:
  "trigger_seconds (VDict ((''durationMs'', VNone) # rest)) = Inl TypeError"
  by (simp add: trigger_seconds_def)

text \<open>
  C2, at a history whose first snapshot has a duration but no timestamp and whose second
  snapshot has both: the loop keeps two durations and one timestamp, so the duration of the
  first snapshot is plotted although its extraction failed, the second snapshot's timestamp
  is paired with the first snapshot's duration, and \<^verbatim>\<open>plt.plot\<close> raises on the unequal
  lengths: the run fails instead of skipping the snapshot.
\<close>

theorem plot_task_durations_keeps_half_a_snapshot:
  "collect
     [VDict [(''durationMs'', VDict [(''triggerExecution'', VInt 1000)])],
      VDict [(''durationMs'', VDict [(''triggerExecution'', VInt 2000)]),
             (''timestamp'', VStr ''t2'')]] ([], [])
   = ([Fin 1, Fin 2], [VStr ''t2''])
   \<and> plot_task_durations
     \<lparr>qid = ''q1'', qname = VNone, status = [], lastProgress = VNone,
      recentProgress = Some
        [VDict [(''durationMs'', VDict [(''triggerExecution'', VInt 1000)])],
         VDict [(''durationMs'', VDict [(''triggerExecution'', VInt 2000)]),
                (''timestamp'', VStr ''t2'')]]\<rparr>
   = ([Plt Figure], Some ValueError)"
proof -
  have s1: "trigger_seconds (VDict [(''durationMs'', VDict [(''triggerExecution'', VInt 1000)])])
      = Inr (Fin 1)"
    using trigger_seconds_whole [of 1 "[]"] by simp
  have s2: "trigger_seconds (VDict [(''durationMs'', VDict [(''triggerExecution'', VInt 2000)]),
             (''timestamp'', VStr ''t2'')]) = Inr (Fin 2)"
    using trigger_seconds_whole [of 2 "[(''timestamp'', VStr ''t2'')]"] by simp
  show ?thesis
    by (simp add: s1 s2 plot_task_durations_def render_chart_def)
qed

text \<open>
  The example of the specification: of five snapshots, the second and the fourth have a
  malformed duration; the chart is drawn from the other three, in order.
\<close>

lemma plot_task_durations_five_snapshots:
  "plot_task_durations
     \<lparr>qid = ''q1'', qname = VNone, status = [], lastProgress = VNone,
      recentProgress = Some
        [VDict [(''durationMs'', VDict [(''triggerExecution'', VInt 1000)]), (''timestamp'', VStr ''t1'')],
         VDict [(''durationMs'', VDict [(''triggerExecution'', VStr ''n/a'')]), (''timestamp'', VStr ''t2'')],
         VDict [(''durationMs'', VDict [(''triggerExecution'', VInt 3000)]), (''timestamp'', VStr ''t3'')],
         VDict [(''durationMs'', VNone), (''timestamp'', VStr ''t4'')],
         VDict [(''durationMs'', VDict [(''triggerExecution'', VInt 5000)]), (''timestamp'', VStr ''t5'')]]\<rparr>
   = ([Plt Figure, Plt (Plot [VStr ''t1'', VStr ''t3'', VStr ''t5''] [Fin 1, Fin 3, Fin 5]),
       Plt Xticks, Plt (Ylabel ''Trigger Duration (sec)''),
       Plt (Title ''Micro-Batch Execution Time over Time''), Plt Grid, Plt TightLayout,
       Plt Show], None)"
proof -
  have s1: "trigger_seconds (VDict [(''durationMs'', VDict [(''triggerExecution'', VInt 1000)]),
      (''timestamp'', VStr ''t1'')]) = Inr (Fin 1)"
    using trigger_seconds_whole [of 1 "[(''timestamp'', VStr ''t1'')]"] by simp
  have s3: "trigger_seconds (VDict [(''durationMs'', VDict [(''triggerExecution'', VInt 3000)]),
      (''timestamp'', VStr ''t3'')]) = Inr (Fin 3)"
    using trigger_seconds_whole [of 3 "[(''timestamp'', VStr ''t3'')]"] by simp
  have s5: "trigger_seconds (VDict [(''durationMs'', VDict [(''triggerExecution'', VInt 5000)]),
      (''timestamp'', VStr ''t5'')]) = Inr (Fin 5)"
    using trigger_seconds_whole [of 5 "[(''timestamp'', VStr ''t5'')]"] by simp
  show ?thesis
    by (simp add: plot_task_durations_def render_chart_def s1 s3 s5
        trigger_seconds_not_a_number trigger_seconds_no_durations)
qed

subsection \<open>Performance Diagnoser: exceptions\<close>

text \<open>
  C5. The diagnoser never raises. Without a progress snapshot its whole run is the printed
  not-started message. With a snapshot whose duration cannot be extracted (a missing key,
  a value that is not a number) its whole run is the printed soft-error message carrying
  the exception.
\<close>

theorem diagnose_performance_never_raises:
  "snd (diagnose_performance q interval) = None
   \<and> (\<not> py_truthy (lastProgress q) \<longrightarrow>
        diagnose_performance q interval = ([not_started], None))
   \<and> (py_truthy (lastProgress q) \<and> trigger_seconds (lastProgress q) = Inl e \<longrightarrow>
        diagnose_performance q interval = ([soft_error e], None))
   \<and> beyond_output (fst (diagnose_performance q interval)) = []"
proof -
  have a: "snd (diagnose_performance q interval) = None"
    by (simp add: diagnose_performance_def Let_def split: prod.splits option.splits)
  have b: "\<not> py_truthy (lastProgress q) \<longrightarrow>
        diagnose_performance q interval = ([not_started], None)"
    by (simp add: diagnose_performance_def)
  have c: "py_truthy (lastProgress q) \<and> trigger_seconds (lastProgress q) = Inl e \<longrightarrow>
        diagnose_performance q interval = ([soft_error e], None)"
    by (simp add: diagnose_performance_def diagnose_body_def)
  have d: "beyond_output (fst (diagnose_performance q interval)) = []"
    by (simp add: diagnose_performance_def diagnose_body_def beyond_output_def Let_def
        not_started_def soft_error_def durations_header_def slower_advice_def
        faster_advice_def balanced_advice_def slower_line_def faster_line_def
        balanced_line_def split: sum.splits)
  from a b c d show ?thesis by blast
qed

theorem diagnose_performance_never_raises_witness:
  "diagnose_performance
     \<lparr>qid = ''q1'', qname = VNone, status = [], lastProgress = VNone, recentProgress = None\<rparr>
     (NInt 10) = ([not_started], None)
   \<and> diagnose_performance
     \<lparr>qid = ''q1'', qname = VNone, status = [],
      lastProgress = VDict [(''batchId'', VInt 3)], recentProgress = None\<rparr>
     (NInt 10) = ([soft_error (KeyError ''durationMs'')], None)
   \<and> diagnose_performance
     \<lparr>qid = ''q1'', qname = VNone, status = [],
      lastProgress = VDict [(''durationMs'', VDict [(''triggerExecution'', VStr ''n/a'')])],
      recentProgress = None\<rparr>
     (NInt 10) = ([soft_error ValueError], None)"
proof -
  have missing: "trigger_seconds (VDict [(''batchId'', VInt 3)]) = Inl (KeyError ''durationMs'')"
    by (simp add: trigger_seconds_def)
  have malformed:
    "trigger_seconds (VDict [(''durationMs'', VDict [(''triggerExecution'', VStr ''n/a'')])])
     = Inl ValueError"
    by (rule trigger_seconds_not_a_number)
  show ?thesis
    using diagnose_performance_never_raises
      [of "\<lparr>qid = ''q1'', qname = VNone, status = [], lastProgress = VNone,
            recentProgress = None\<rparr>" "NInt 10"]
      diagnose_performance_never_raises
      [of "\<lparr>qid = ''q1'', qname = VNone, status = [],
            lastProgress = VDict [(''batchId'', VInt 3)], recentProgress = None\<rparr>" "NInt 10"
          "KeyError ''durationMs''"]
      diagnose_performance_never_raises
      [of "\<lparr>qid = ''q1'', qname = VNone, status = [],
            lastProgress = VDict [(''durationMs'', VDict [(''triggerExecution'', VStr ''n/a'')])],
            recentProgress = None\<rparr>" "NInt 10" "ValueError"]
    by (simp add: missing malformed)
qed


subsection \<open>Performance Diagnoser: classification\<close>

text \<open>
  C1. Take a snapshot whose trigger duration is \<open>T \<ge> 0\<close> milliseconds, with \<open>T / 1000\<close>
  and \<open>interval * 0.5\<close> evaluating to the floats \<open>batch_time\<close> and \<open>half\<close>. The run prints
  the two durations and then the slower advice exactly when \<open>batch_time > interval\<close>, the
  faster advice exactly when \<open>batch_time < half\<close>, and the balanced advice otherwise;
  \<open>batch_time == interval\<close> gives balanced, and so does \<open>batch_time == half\<close> for an interval
  that is not negative. For an int interval \<open>i\<close> below \<open>2 ^ 52\<close> in size and a duration below
  \<open>2 ^ 43\<close> seconds the two float comparisons are the exact ones: \<open>T / 1000 > i\<close> is
  \<open>1000 * i < T\<close> and \<open>T / 1000 < 0.5 * i\<close> is \<open>2 * T < 1000 * i\<close>.
\<close>

theorem diagnose_performance_classification:
  assumes "py_getitem (lastProgress q) ''durationMs'' = Inr d"
    and "py_getitem d ''triggerExecution'' = Inr t"
    and "py_int t = Inr T"
    and "0 \<le> T"
    and "int_truediv T 1000 = Inr batch_time"
    and "mul_float interval (Fin (1 / 2)) = Inr half"
  shows "diagnose_performance q interval
           = (durations_header interval batch_time
                @ (if num_less interval (NFloat batch_time) then slower_advice
                   else if float_less batch_time half then faster_advice
                   else balanced_advice), None)
       \<and> (diagnosis (diagnose_performance q interval) = Some Slower
            \<longleftrightarrow> num_less interval (NFloat batch_time))
       \<and> (diagnosis (diagnose_performance q interval) = Some Faster
            \<longleftrightarrow> float_less batch_time half)
       \<and> (diagnosis (diagnose_performance q interval) = Some Balanced
            \<longleftrightarrow> \<not> num_less interval (NFloat batch_time) \<and> \<not> float_less batch_time half)
       \<and> (exact interval = batch_time \<longrightarrow>
            diagnosis (diagnose_performance q interval) = Some Balanced)
       \<and> (batch_time = half \<and> \<not> num_less interval (NInt 0) \<longrightarrow>
            diagnosis (diagnose_performance q interval) = Some Balanced)
       \<and> (\<forall>i. interval = NInt i \<and> \<bar>i\<bar> < 2 ^ 52 \<and> T < 2 ^ 43 * 1000 \<longrightarrow>
            (num_less interval (NFloat batch_time) \<longleftrightarrow> 1000 * i < T)
            \<and> (float_less batch_time half \<longleftrightarrow> 2 * T < 1000 * i))"
proof -
  from truediv_value [OF assms(5)]
  obtain x where bt: "batch_time = Fin x" and rd: "round_double (of_int T / 1000) = Fin x"
    by auto
  have "(0::rat) \<le> of_int T / 1000" using assms(4) by simp
  from round_double_nonneg(1) [OF this rd] have x0: "0 \<le> x" .
  from round_double_Fin(2) [OF rd] have x1: "x < pow2 1024" by simp
  have ts: "trigger_seconds (lastProgress q) = Inr batch_time"
    by (simp add: trigger_seconds_def assms)
  have run: "diagnose_performance q interval
           = (durations_header interval batch_time
                @ (if num_less interval (NFloat batch_time) then slower_advice
                   else if float_less batch_time half then faster_advice
                   else balanced_advice), None)"
    using getitem_truthy [OF assms(1)]
    by (simp add: diagnose_performance_def diagnose_body_def ts assms(6) Let_def)
  have excl: "\<not> float_less batch_time half" if s: "num_less interval (NFloat batch_time)"
  proof (cases "exact interval")
    case (Fin y)
    with s bt have "y \<le> x" by (simp add: num_less_def)
    from not_faster_than_half [OF Fin this x0 x1 assms(6)] bt show ?thesis by simp
  next
    case PInf
    with s bt show ?thesis by (simp add: num_less_def)
  next
    case NInf
    then have "interval = NFloat NInf" by (cases interval) simp_all
    with assms(6) have "half = NInf" by auto
    with bt show ?thesis by simp
  next
    case NaN
    with s show ?thesis by (simp add: num_less_def)
  qed
  have same: "\<not> num_less interval (NFloat batch_time) \<and> \<not> float_less batch_time half"
    if e: "exact interval = batch_time"
  proof -
    from e bt have ex: "exact interval = Fin x" by simp
    from not_faster_than_half [OF ex _ x0 x1 assms(6)] bt ex show ?thesis
      by (simp add: num_less_def diagnosis_of_run)
  qed
  have half_case: "\<not> num_less interval (NFloat batch_time) \<and> \<not> float_less batch_time half"
    if e: "batch_time = half" and n: "\<not> num_less interval (NInt 0)"
  proof -
    from e bt have hx: "half = Fin x" by simp
    have "\<not> num_less interval (NFloat (Fin x))"
    proof (cases "exact interval")
      case (Fin y)
      with n have "0 \<le> y" by (simp add: num_less_def)
      from half_interval_le [OF Fin this] assms(6) hx have "x \<le> y" by simp
      with Fin show ?thesis by (simp add: num_less_def)
    next
      case NInf
      with n show ?thesis by (simp add: num_less_def)
    qed (simp_all add: num_less_def)
    with bt hx show ?thesis by simp
  qed
  have range: "(num_less interval (NFloat batch_time) \<longleftrightarrow> 1000 * i < T)
            \<and> (float_less batch_time half \<longleftrightarrow> 2 * T < 1000 * i)"
    if i: "interval = NInt i" "\<bar>i\<bar> < 2 ^ 52" "T < 2 ^ 43 * 1000" for i
  proof -
    from half_of_int_interval [OF i(2)] assms(6) i(1) have "half = Fin (of_int i / 2)"
      by simp
    with seconds_against_integers [OF rd assms(4) i(3), of i] bt i(1) show ?thesis
      by (simp add: num_less_def diagnosis_of_run)
  qed
  show ?thesis
    using excl same half_case range
    by (auto simp: run diagnosis_of_run)
qed

theorem diagnose_performance_classification_witness:
  "diagnosis (diagnose_performance
     \<lparr>qid = ''q1'', qname = VNone, status = [],
      lastProgress = VDict [(''durationMs'', VDict [(''triggerExecution'', VInt 12000)])],
      recentProgress = None\<rparr> (NInt 10)) = Some Slower
   \<and> diagnosis (diagnose_performance
     \<lparr>qid = ''q1'', qname = VNone, status = [],
      lastProgress = VDict [(''durationMs'', VDict [(''triggerExecution'', VInt 4000)])],
      recentProgress = None\<rparr> (NInt 10)) = Some Faster
   \<and> diagnosis (diagnose_performance
     \<lparr>qid = ''q1'', qname = VNone, status = [],
      lastProgress = VDict [(''durationMs'', VDict [(''triggerExecution'', VInt 10000)])],
      recentProgress = None\<rparr> (NInt 10)) = Some Balanced
   \<and> diagnosis (diagnose_performance
     \<lparr>qid = ''q1'', qname = VNone, status = [],
      lastProgress = VDict [(''durationMs'', VDict [(''triggerExecution'', VInt 5000)])],
      recentProgress = None\<rparr> (NInt 10)) = Some Balanced"
proof -
  have half: "mul_float (NInt 10) (Fin (1 / 2)) = Inr (Fin 5)"
    using half_of_int_interval [of 10] by simp
  have t12: "int_truediv 12000 1000 = Inr (Fin 12)"
    using int_truediv_whole [of 12] by simp
  have t4: "int_truediv 4000 1000 = Inr (Fin 4)"
    using int_truediv_whole [of 4] by simp
  have t10: "int_truediv 10000 1000 = Inr (Fin 10)"
    using int_truediv_whole [of 10] by simp
  have t5: "int_truediv 5000 1000 = Inr (Fin 5)"
    using int_truediv_whole [of 5] by simp
  have g: "py_getitem (VDict [(''triggerExecution'', VInt T)]) ''triggerExecution'' = Inr (VInt T)"
    for T by simp
  have a: "diagnosis (diagnose_performance
     \<lparr>qid = ''q1'', qname = VNone, status = [],
      lastProgress = VDict [(''durationMs'', VDict [(''triggerExecution'', VInt 12000)])],
      recentProgress = None\<rparr> (NInt 10)) = Some Slower"
    using diagnose_performance_classification
      [of "\<lparr>qid = ''q1'', qname = VNone, status = [],
            lastProgress = VDict [(''durationMs'', VDict [(''triggerExecution'', VInt 12000)])],
            recentProgress = None\<rparr>"
          "VDict [(''triggerExecution'', VInt 12000)]" "VInt 12000" 12000 "Fin 12" "NInt 10" "Fin 5",
       OF _ g _ _ t12 half]
    by (simp add: num_less_def diagnosis_of_run)
  have b: "diagnosis (diagnose_performance
     \<lparr>qid = ''q1'', qname = VNone, status = [],
      lastProgress = VDict [(''durationMs'', VDict [(''triggerExecution'', VInt 4000)])],
      recentProgress = None\<rparr> (NInt 10)) = Some Faster"
    using diagnose_performance_classification
      [of "\<lparr>qid = ''q1'', qname = VNone, status = [],
            lastProgress = VDict [(''durationMs'', VDict [(''triggerExecution'', VInt 4000)])],
            recentProgress = None\<rparr>"
          "VDict [(''triggerExecution'', VInt 4000)]" "VInt 4000" 4000 "Fin 4" "NInt 10" "Fin 5",
       OF _ g _ _ t4 half]
    by (simp add: num_less_def diagnosis_of_run)
  have c: "diagnosis (diagnose_performance
     \<lparr>qid = ''q1'', qname = VNone, status = [],
      lastProgress = VDict [(''durationMs'', VDict [(''triggerExecution'', VInt 10000)])],
      recentProgress = None\<rparr> (NInt 10)) = Some Balanced"
    using diagnose_performance_classification
      [of "\<lparr>qid = ''q1'', qname = VNone, status = [],
            lastProgress = VDict [(''durationMs'', VDict [(''triggerExecution'', VInt 10000)])],
            recentProgress = None\<rparr>"
          "VDict [(''triggerExecution'', VInt 10000)]" "VInt 10000" 10000 "Fin 10" "NInt 10" "Fin 5",
       OF _ g _ _ t10 half]
    by (simp add: num_less_def diagnosis_of_run)
  have d: "diagnosis (diagnose_performance
     \<lparr>qid = ''q1'', qname = VNone, status = [],
      lastProgress = VDict [(''durationMs'', VDict [(''triggerExecution'', VInt 5000)])],
      recentProgress = None\<rparr> (NInt 10)) = Some Balanced"
    using diagnose_performance_classification
      [of "\<lparr>qid = ''q1'', qname = VNone, status = [],
            lastProgress = VDict [(''durationMs'', VDict [(''triggerExecution'', VInt 5000)])],
            recentProgress = None\<rparr>"
          "VDict [(''triggerExecution'', VInt 5000)]" "VInt 5000" 5000 "Fin 5" "NInt 10" "Fin 5",
       OF _ g _ _ t5 half]
    by (simp add: num_less_def diagnosis_of_run)
  from a b c d show ?thesis by simp
qed

end
